theory Spec2Isabelle
  imports Main "HOL-Library.Sublist"
begin

section \<open>The SCION HTTP(S) proxy (endhost/scion\_proxy.py)\<close>

text \<open>
  A shallow embedding of the connection handler of the proxy: the request parser
  (\<open>ConnectionHandler.parse_request\<close>), the dispatch of both handler classes, the
  serialisation of the forwarded request (\<open>_send_request\<close>) and the copy loop of one
  relay direction (\<open>ProxyData._run\<close>).

  Bytes and characters are \<^typ>\<open>char\<close>; a byte string and a decoded ASCII string are both
  \<^typ>\<open>string\<close>. A socket that is read is the list of the bytes still to arrive, ended by
  the peer's close. Exceptions are values of \<open>exn\<close>; a function that can raise returns
  \<open>exn + 'a\<close>. The functions of the standard library that the proxy calls (\<open>str\<close> methods,
  \<open>int\<close>, \<open>http.client.HTTPMessage\<close>, \<open>urllib.parse\<close>) are modelled as they behave in
  CPython 3.4, the interpreter of the time the proxy was written.
\<close>

subsection \<open>Python exceptions and string primitives\<close>

datatype exn = ValueError | TypeError | KeyError | UnicodeDecodeError | UnicodeEncodeError
  | OSError | OverflowError | RuntimeError

abbreviation CR :: char where "CR \<equiv> CHR 0x0D"
abbreviation LF :: char where "LF \<equiv> CHR 0x0A"
abbreviation CRLF :: string where "CRLF \<equiv> [CR, LF]"

text \<open>\<open>bytes.decode("ascii")\<close>: every byte must be below 128 (bit 7 clear).\<close>

definition is_ascii :: "char \<Rightarrow> bool" where
  "is_ascii c = (\<not> digit7 c)"

definition decode_ascii :: "string \<Rightarrow> exn + string" where
  "decode_ascii bs = (if list_all is_ascii bs then Inr bs else Inl UnicodeDecodeError)"

text \<open>\<open>str.encode("ascii")\<close>: every character must be below 128.\<close>

definition encode_ascii :: "string \<Rightarrow> exn + string" where
  "encode_ascii s = (if list_all is_ascii s then Inr s else Inl UnicodeEncodeError)"

text \<open>\<open>s.split(c)\<close> for a one-character separator: every occurrence splits, empty
  pieces are kept, and the result is never empty.\<close>

fun split_chr :: "char \<Rightarrow> string \<Rightarrow> string list" where
  "split_chr c [] = [[]]"
| "split_chr c (x # xs) =
     (if x = c then [] # split_chr c xs
      else (case split_chr c xs of
              [] \<Rightarrow> [[x]]
            | y # ys \<Rightarrow> (x # y) # ys))"

text \<open>\<open>s.split(sep, 1)\<close> for a non-empty separator: \<open>None\<close> stands for the one-element
  list \<open>[s]\<close> (no occurrence), \<open>Some (a, b)\<close> for \<open>[a, b]\<close>, split at the first occurrence.\<close>

fun split1 :: "string \<Rightarrow> string \<Rightarrow> (string \<times> string) option" where
  "split1 sep [] = None"
| "split1 sep (x # xs) =
     (if take (length sep) (x # xs) = sep then Some ([], drop (length sep) (x # xs))
      else (case split1 sep xs of
              None \<Rightarrow> None
            | Some (a, b) \<Rightarrow> Some (x # a, b)))"

text \<open>\<open>str.lower()\<close> on ASCII text.\<close>

definition lower_chr :: "char \<Rightarrow> char" where
  "lower_chr c =
     (case map_of (zip ''ABCDEFGHIJKLMNOPQRSTUVWXYZ'' ''abcdefghijklmnopqrstuvwxyz'') c of
        None \<Rightarrow> c
      | Some d \<Rightarrow> d)"

definition lower :: "string \<Rightarrow> string" where
  "lower s = map lower_chr s"

subsection \<open>The header container (http.client.HTTPMessage)\<close>

text \<open>
  \<open>HTTPMessage\<close> is \<open>email.message.Message\<close> under the \<open>compat32\<close> policy: an ordered list
  of (name, value) pairs, looked up by the lower-cased name. \<open>add_header\<close> without
  parameters appends; \<open>__getitem__\<close> returns the first match or \<open>None\<close>; \<open>__delitem__\<close>
  removes every match and never raises; \<open>replace_header\<close> rewrites the value of the first
  match, keeping its place and the case of its name, and raises \<open>KeyError\<close> without a match.
\<close>

type_synonym headers = "(string \<times> string) list"

definition add_header :: "headers \<Rightarrow> string \<Rightarrow> string \<Rightarrow> headers" where
  "add_header hs name val = hs @ [(name, val)]"

fun getitem :: "headers \<Rightarrow> string \<Rightarrow> string option" where
  "getitem [] name = None"
| "getitem ((k, v) # hs) name = (if lower k = lower name then Some v else getitem hs name)"

definition delitem :: "headers \<Rightarrow> string \<Rightarrow> headers" where
  "delitem hs name = filter (\<lambda>(k, v). lower k \<noteq> lower name) hs"

fun replace_header :: "headers \<Rightarrow> string \<Rightarrow> string \<Rightarrow> exn + headers" where
  "replace_header [] name val = Inl KeyError"
| "replace_header ((k, v) # hs) name val =
     (if lower k = lower name then Inr ((k, val) # hs)
      else (case replace_header hs name val of
              Inl e \<Rightarrow> Inl e
            | Inr hs' \<Rightarrow> Inr ((k, v) # hs')))"

subsection \<open>The request parser\<close>

record request =
  "method" :: string
  path :: string
  protocol :: string
  headers :: headers

text \<open>
  The read loop of \<open>parse_request\<close>: \<open>recv(1)\<close> until two consecutive line feeds have been
  stored. The arguments are the loop variables \<open>lf_count\<close> and \<open>data\<close> and the bytes the
  client still sends; \<open>None\<close> is the \<open>return False\<close> of a client that closed, otherwise the
  result is \<open>data\<close> and the bytes left unread on the connection.
\<close>

fun recv_head :: "nat \<Rightarrow> string \<Rightarrow> string \<Rightarrow> (string \<times> string) option" where
  "recv_head lf_count data s =
     (if lf_count < 2 then
        (case s of
           [] \<Rightarrow> None
         | b # s' \<Rightarrow>
             if b = CR then recv_head lf_count data s'
             else recv_head (if b = LF then lf_count + 1 else 0) (data @ [b]) s')
      else Some (data, s))"

declare recv_head.simps [simp del]

text \<open>The header loop: it stops at the first empty line; a line without \<open>": "\<close> makes
  \<open>add_header\<close> miss its second argument (\<open>TypeError\<close>).\<close>

fun header_lines :: "string list \<Rightarrow> headers \<Rightarrow> exn + headers" where
  "header_lines [] hs = Inr hs"
| "header_lines (line # lines) hs =
     (if line = [] then Inr hs
      else (case split1 '': '' line of
              None \<Rightarrow> Inl TypeError
            | Some (name, val) \<Rightarrow> header_lines lines (add_header hs name val)))"

text \<open>
  \<open>parse_request\<close> returns, with the bytes left on the connection: \<open>Inr None\<close> for
  \<open>return False\<close>, \<open>Inr (Some r)\<close> for \<open>return True\<close> with the handler's fields set to \<open>r\<close>, and
  \<open>Inl e\<close> for an exception: the decoding error, the \<open>ValueError\<close> of unpacking a request
  line that has not exactly three fields, or the \<open>TypeError\<close> of a header line.
\<close>

definition parse_request :: "string \<Rightarrow> (exn + request option) \<times> string" where
  "parse_request s =
     (case recv_head 0 [] s of
        None \<Rightarrow> (Inr None, [])
      | Some (data, rest) \<Rightarrow>
          (case decode_ascii data of
             Inl e \<Rightarrow> (Inl e, rest)
           | Inr text \<Rightarrow>
               (case split_chr LF text of
                  [] \<Rightarrow> (Inl ValueError, rest)
                | first # lines \<Rightarrow>
                    (case split_chr (CHR '' '') first of
                       [m, p, v] \<Rightarrow>
                         (case header_lines lines [] of
                            Inl e \<Rightarrow> (Inl e, rest)
                          | Inr hs \<Rightarrow>
                              (Inr (Some \<lparr>method = m, path = p, protocol = v, headers = hs\<rparr>),
                               rest))
                     | _ \<Rightarrow> (Inl ValueError, rest)))))"

subsection \<open>Notions used to state the parser's properties\<close>

text \<open>The bytes of a stream with every carriage return removed.\<close>

definition strip_cr :: "string \<Rightarrow> string" where
  "strip_cr s = filter (\<lambda>c. c \<noteq> CR) s"

text \<open>Two consecutive line feeds occur in a string.\<close>

fun has_lflf :: "string \<Rightarrow> bool" where
  "has_lflf (a # b # r) = ((a = LF \<and> b = LF) \<or> has_lflf (b # r))"
| "has_lflf _ = False"

text \<open>
  A request head of the expected shape on the wire: the request line, one line per header
  and the blank line, each ended by CR LF. The three fields of the request line hold no
  space, CR or LF; a header name holds no colon, CR or LF; a header value holds no CR or
  LF. Any byte value is allowed otherwise.
\<close>

definition header_line :: "string \<times> string \<Rightarrow> string" where
  "header_line h = fst h @ '': '' @ snd h"





subsection \<open>One relay direction (ProxyData)\<close>

text \<open>
  The socket that is read is the list of what arrives on it: segments of bytes and error
  conditions, ended by the peer's close. \<open>recv(n)\<close> waits for the next non-empty segment
  and returns at most \<open>n\<close> bytes of it; at the end of the list it returns the empty byte
  string; on an error condition it raises \<open>OSError\<close>, which \<open>_read\<close> turns into \<open>None\<close>.
\<close>

definition BUFLEN :: nat where
  "BUFLEN = 8192"

datatype arrival = Bytes string | RecvError

type_synonym rsock = "arrival list"

fun recv :: "nat \<Rightarrow> rsock \<Rightarrow> string option \<times> rsock" where
  "recv n [] = (Some [], [])"
| "recv n (RecvError # r) = (None, r)"
| "recv n (Bytes bs # r) =
     (if bs = [] then recv n r
      else (Some (take n bs), if length bs \<le> n then r else Bytes (drop n bs) # r))"

definition ProxyData_read :: "rsock \<Rightarrow> string option \<times> rsock" where
  "ProxyData_read r = recv BUFLEN r"

text \<open>
  The socket that is written: the chunks it has taken, in order, the number of bytes it
  still takes before \<open>sendall\<close> raises \<open>OSError\<close> (\<open>None\<close>: no limit), and whether it has been
  shut down. A failing \<open>sendall\<close> has delivered the bytes that still fitted.
\<close>

record wsock =
  sent :: "string list"
  capacity :: "nat option"
  shut :: bool

definition sendall :: "wsock \<Rightarrow> string \<Rightarrow> bool \<times> wsock" where
  "sendall w data =
     (case capacity w of
        None \<Rightarrow> (True, w\<lparr>sent := sent w @ [data]\<rparr>)
      | Some k \<Rightarrow>
          if length data \<le> k
          then (True, w\<lparr>sent := sent w @ [data], capacity := Some (k - length data)\<rparr>)
          else (False, w\<lparr>sent := sent w @ [take k data], capacity := Some 0\<rparr>))"

text \<open>\<open>_write\<close>: \<open>True\<close> when \<open>sendall\<close> returned, \<open>False\<close> when it raised \<open>OSError\<close>.\<close>

definition ProxyData_write :: "wsock \<Rightarrow> string \<Rightarrow> bool \<times> wsock" where
  "ProxyData_write w data = sendall w data"

text \<open>\<open>wsock.shutdown(SHUT_RDWR)\<close>, its \<open>OSError\<close> ignored.\<close>

definition shutdown :: "wsock \<Rightarrow> wsock" where
  "shutdown w = w\<lparr>shut := True\<rparr>"

text \<open>The size of what is still to arrive: the measure of the copy loop.\<close>

fun pending :: "rsock \<Rightarrow> nat" where
  "pending [] = 0"
| "pending (RecvError # r) = Suc (pending r)"
| "pending (Bytes bs # r) = Suc (length bs + pending r)"

text \<open>\<open>ProxyData._run\<close>: the result is what is left to arrive and the written socket.\<close>

function ProxyData_run :: "rsock \<Rightarrow> wsock \<Rightarrow> rsock \<times> wsock" where
  "ProxyData_run r w =
     (case ProxyData_read r of
        (None, r') \<Rightarrow> (r', shutdown w)
      | (Some data, r') \<Rightarrow>
          if data = [] then (r', shutdown w)
          else (case ProxyData_write w data of
                  (False, w') \<Rightarrow> (r', shutdown w')
                | (True, w') \<Rightarrow> ProxyData_run r' w'))"
  by pat_completeness auto
termination
proof (relation "measure (\<lambda>(r, w). pending r)")
  show "wf (measure (\<lambda>(r, w). pending r))" by simp
next
  fix r :: rsock and w :: wsock and x r' xa data y w'
  assume a: "(x, r') = ProxyData_read r" "x = Some data" "data \<noteq> []"
  have dec: "pending b < pending a" if "recv n a = (Some d, b)" "d \<noteq> []" for n a d b
    using that by (induction n a rule: recv.induct) (auto split: if_splits)
  from a have "recv BUFLEN r = (Some data, r')" by (simp add: ProxyData_read_def)
  from dec [OF this a(3)] have "pending r' < pending r" .
  then show "((r', w'), (r, w)) \<in> measure (\<lambda>(r, w). pending r)" by simp
qed

declare ProxyData_run.simps [simp del]

text \<open>The bytes that arrive before the end of the stream or the first error, and what is
  left to arrive after that point.\<close>

fun payload :: "rsock \<Rightarrow> string" where
  "payload [] = []"
| "payload (RecvError # r) = []"
| "payload (Bytes bs # r) = bs @ payload r"

fun after_end :: "rsock \<Rightarrow> rsock" where
  "after_end [] = []"
| "after_end (RecvError # r) = r"
| "after_end (Bytes bs # r) = after_end r"

text \<open>What a destination with the given capacity takes of a byte string.\<close>

definition delivered :: "nat option \<Rightarrow> string \<Rightarrow> string" where
  "delivered cap bs = (case cap of None \<Rightarrow> bs | Some k \<Rightarrow> take k bs)"

text \<open>The non-empty chunks that the first \<open>n\<close> reads of the loop return, up to the first
  read that reports the end of the stream or an error, and the source after \<open>n\<close> reads.\<close>

fun reads :: "nat \<Rightarrow> rsock \<Rightarrow> string list" where
  "reads 0 r = []"
| "reads (Suc n) r =
     (case ProxyData_read r of
        (None, r') \<Rightarrow> []
      | (Some d, r') \<Rightarrow> if d = [] then [] else d # reads n r')"

fun after_reads :: "nat \<Rightarrow> rsock \<Rightarrow> rsock" where
  "after_reads 0 r = r"
| "after_reads (Suc n) r = after_reads n (snd (ProxyData_read r))"

text \<open>A destination with the given capacity takes the whole byte string: no write fails.\<close>

definition takes_all :: "nat option \<Rightarrow> string \<Rightarrow> bool" where
  "takes_all cap bs = (case cap of None \<Rightarrow> True | Some k \<Rightarrow> length bs \<le> k)"

subsection \<open>urllib.parse\<close>

text \<open>
  \<open>urlparse\<close> and \<open>urlunparse\<close> of Lib/urllib/parse.py, on \<open>str\<close> arguments (the cache of
  \<open>urlsplit\<close> does not change its results and is left out).
  \<open>s.find(c)\<close> is \<open>find_chr\<close>, with \<open>None\<close> for \<open>-1\<close>; \<open>s.find(c, start)\<close> is \<open>find_from\<close>;
  \<open>s.rfind(c)\<close> is \<open>rfind_chr\<close>.
\<close>

fun find_chr :: "char \<Rightarrow> string \<Rightarrow> nat option" where
  "find_chr c [] = None"
| "find_chr c (x # xs) = (if x = c then Some 0 else map_option Suc (find_chr c xs))"

definition find_from :: "char \<Rightarrow> nat \<Rightarrow> string \<Rightarrow> nat option" where
  "find_from c start s = map_option (\<lambda>i. start + i) (find_chr c (drop start s))"

definition rfind_chr :: "char \<Rightarrow> string \<Rightarrow> nat option" where
  "rfind_chr c s = map_option (\<lambda>i. length s - 1 - i) (find_chr c (rev s))"

definition uses_netloc :: "string list" where
  "uses_netloc = [''ftp'', ''http'', ''gopher'', ''nntp'', ''telnet'', ''imap'', ''wais'',
     ''file'', ''mms'', ''https'', ''shttp'', ''snews'', ''prospero'', ''rtsp'', ''rtspu'',
     ''rsync'', '''', ''svn'', ''svn+ssh'', ''sftp'', ''nfs'', ''git'', ''git+ssh'']"

definition uses_params :: "string list" where
  "uses_params = [''ftp'', ''hdl'', ''prospero'', ''http'', ''imap'', ''https'', ''shttp'',
     ''rtsp'', ''rtspu'', ''sip'', ''sips'', ''mms'', '''', ''sftp'', ''tel'']"

definition scheme_chars :: string where
  "scheme_chars =
     ''abcdefghijklmnopqrstuvwxyzABCDEFGHIJKLMNOPQRSTUVWXYZ0123456789+-.''"

text \<open>\<open>_splitparams(url)\<close>: \<open>'/' in url\<close> is \<open>rfind\<close> finding a slash; in the second branch a
  \<open>find\<close> that returns \<open>-1\<close> makes the slices \<open>url[:-1]\<close> and \<open>url[0:]\<close>.\<close>

definition splitparams :: "string \<Rightarrow> string \<times> string" where
  "splitparams url =
     (case rfind_chr (CHR ''/'') url of
        Some slash \<Rightarrow>
          (case find_from (CHR '';'') slash url of
             None \<Rightarrow> (url, [])
           | Some i \<Rightarrow> (take i url, drop (i + 1) url))
      | None \<Rightarrow>
          (case find_chr (CHR '';'') url of
             None \<Rightarrow> (butlast url, url)
           | Some i \<Rightarrow> (take i url, drop (i + 1) url)))"

text \<open>\<open>_splitnetloc(url, start)\<close>: the netloc ends at the first of \<open>/\<close>, \<open>?\<close> and \<open>#\<close>.\<close>

definition splitnetloc :: "string \<Rightarrow> nat \<Rightarrow> string \<times> string" where
  "splitnetloc url start =
     (let delim = foldl (\<lambda>delim c. case find_from c start url of
                                        None \<Rightarrow> delim
                                      | Some wdelim \<Rightarrow> min delim wdelim)
                        (length url) ''/?#''
      in (take (delim - start) (drop start url), drop delim url))"

text \<open>
  The part of \<open>urlsplit\<close> after the scheme has been found, written twice in the source (for
  the scheme \<open>http\<close> and for the others): netloc, the check of the brackets of an IPv6
  address, fragment and query.
\<close>

definition urlsplit_rest ::
  "string \<Rightarrow> string \<Rightarrow> exn + (string \<times> string \<times> string \<times> string \<times> string)" where
  "urlsplit_rest scheme url =
     (let (netloc, url1) = (if take 2 url = ''//'' then splitnetloc url 2 else ([], url)) in
      if (CHR ''['' \<in> set netloc \<and> CHR '']'' \<notin> set netloc) \<or>
         (CHR '']'' \<in> set netloc \<and> CHR ''['' \<notin> set netloc)
      then Inl ValueError
      else
        (let (url2, fragment) = (case split1 ''#'' url1 of None \<Rightarrow> (url1, []) | Some p \<Rightarrow> p);
             (url3, query) = (case split1 ''?'' url2 of None \<Rightarrow> (url2, []) | Some p \<Rightarrow> p)
         in Inr (scheme, netloc, url3, query, fragment)))"

definition urlsplit ::
  "string \<Rightarrow> string \<Rightarrow> exn + (string \<times> string \<times> string \<times> string \<times> string)" where
  "urlsplit url scheme =
     (case find_chr (CHR '':'') url of
        None \<Rightarrow> urlsplit_rest scheme url
      | Some i \<Rightarrow>
          if i > 0 then
            (if take i url = ''http'' then urlsplit_rest (lower (take i url)) (drop (i + 1) url)
             else if list_all (\<lambda>c. c \<in> set scheme_chars) (take i url) then
               (let rest = drop (i + 1) url in
                if rest = [] \<or> list_ex (\<lambda>c. c \<notin> set ''0123456789'') rest
                then urlsplit_rest (lower (take i url)) rest
                else urlsplit_rest scheme url)
             else urlsplit_rest scheme url)
          else urlsplit_rest scheme url)"

definition urlparse ::
  "string \<Rightarrow> string \<Rightarrow>
   exn + (string \<times> string \<times> string \<times> string \<times> string \<times> string)" where
  "urlparse url scheme =
     (case urlsplit url scheme of
        Inl e \<Rightarrow> Inl e
      | Inr (scheme', netloc, url', query, fragment) \<Rightarrow>
          if scheme' \<in> set uses_params \<and> CHR '';'' \<in> set url'
          then (case splitparams url' of
                  (url'', params) \<Rightarrow> Inr (scheme', netloc, url'', params, query, fragment))
          else Inr (scheme', netloc, url', [], query, fragment))"

definition urlunsplit :: "string \<times> string \<times> string \<times> string \<times> string \<Rightarrow> string" where
  "urlunsplit c =
     (case c of (scheme, netloc, url, query, fragment) \<Rightarrow>
        (let url1 = (if netloc \<noteq> [] \<or>
                        (scheme \<noteq> [] \<and> scheme \<in> set uses_netloc \<and> take 2 url \<noteq> ''//'')
                     then ''//'' @ netloc @
                          (if url \<noteq> [] \<and> take 1 url \<noteq> ''/'' then ''/'' @ url else url)
                     else url);
             url2 = (if scheme \<noteq> [] then scheme @ '':'' @ url1 else url1);
             url3 = (if query \<noteq> [] then url2 @ ''?'' @ query else url2)
         in if fragment \<noteq> [] then url3 @ ''#'' @ fragment else url3))"

definition urlunparse ::
  "string \<times> string \<times> string \<times> string \<times> string \<times> string \<Rightarrow> string" where
  "urlunparse c =
     (case c of (scheme, netloc, url, params, query, fragment) \<Rightarrow>
        urlunsplit (scheme, netloc, (if params \<noteq> [] then url @ '';'' @ params else url),
                    query, fragment))"

subsection \<open>The sockets and the trace of a handler\<close>

text \<open>
  What a handler does to its sockets is recorded as a list of events, in order:
  \<open>Connect d ok\<close> is a call of \<open>connect\<close> with destination \<open>d\<close> (for the SCION transport, the
  construction of a \<open>ScionClientSocket\<close>), \<open>ok\<close> telling whether it returned; \<open>SendNear\<close>
  and \<open>SendFar\<close> are the calls of \<open>send\<close> on the client's and on the destination's socket,
  with their argument; \<open>ReadWrite\<close> is the call of \<open>_read_write\<close>; \<open>CloseFar\<close> and \<open>CloseNear\<close>
  are the calls of \<open>cleanup\<close> on the destination's and on the client's socket.

  The environment decides how each call on a socket ends: it returns or raises.
\<close>

datatype dest = Tcp string int | Scion "int \<times> int" string int

datatype event = Connect dest bool | SendNear string | SendFar string | ReadWrite
  | CloseFar | CloseNear

datatype outcome = Returns | Raises exn

record env =
  new_socket :: outcome
  connect :: "dest \<Rightarrow> outcome"
  near_send :: "string \<Rightarrow> outcome"
  far_send :: "string \<Rightarrow> outcome"
  read_write :: outcome

text \<open>\<open>int(s)\<close> on an ASCII string: surrounding white space (the characters 9 to 13 and the
  space), an optional sign and decimal digits; anything else raises \<open>ValueError\<close>.\<close>

definition py_space :: "char \<Rightarrow> bool" where
  "py_space c = (c \<in> set [CHR 0x09, CHR 0x0A, CHR 0x0B, CHR 0x0C, CHR 0x0D, CHR 0x20])"

definition digit_val :: "char \<Rightarrow> int option" where
  "digit_val c = map_of (zip ''0123456789'' [0, 1, 2, 3, 4, 5, 6, 7, 8, 9]) c"

fun digits_val :: "int \<Rightarrow> string \<Rightarrow> int option" where
  "digits_val acc [] = Some acc"
| "digits_val acc (c # cs) =
     (case digit_val c of None \<Rightarrow> None | Some d \<Rightarrow> digits_val (10 * acc + d) cs)"

definition py_int :: "string \<Rightarrow> exn + int" where
  "py_int s =
     (let t = rev (dropWhile py_space (rev (dropWhile py_space s)));
          (neg, ds) = (case t of
                         c # r \<Rightarrow> if c = CHR ''-'' then (True, r)
                                  else if c = CHR ''+'' then (False, r) else (False, t)
                       | [] \<Rightarrow> (False, t))
      in if ds = [] then Inl ValueError
         else (case digits_val 0 ds of
                 None \<Rightarrow> Inl ValueError
               | Some n \<Rightarrow> Inr (if neg then - n else n)))"

text \<open>\<open>sep.join(xs)\<close>.\<close>

fun join :: "string \<Rightarrow> string list \<Rightarrow> string" where
  "join sep [] = []"
| "join sep [x] = x"
| "join sep (x # y # ys) = x @ sep @ join sep (y # ys)"

subsection \<open>ConnectionHandler\<close>

definition VERSION :: string where
  "VERSION = ''0.1.0''"

definition server_version :: string where
  "server_version = ''SCION HTTP Proxy/'' @ VERSION"

text \<open>
  \<open>_connect_to\<close>: \<open>Inr True\<close> is the connected socket, \<open>Inr False\<close> the \<open>return False\<close> after
  an \<open>OSError\<close> of \<open>connect\<close>. Unpacking \<open>netloc.split(':')\<close> raises \<open>ValueError\<close> unless there
  are exactly two pieces; \<open>int(port)\<close> is evaluated before \<open>connect\<close> is called.
\<close>

definition connect_to :: "env \<Rightarrow> string \<Rightarrow> event list \<times> (exn + bool)" where
  "connect_to e netloc =
     (case new_socket e of
        Raises x \<Rightarrow> ([], Inl x)
      | Returns \<Rightarrow>
          (case (if CHR '':'' \<in> set netloc
                 then (case split_chr (CHR '':'') netloc of
                         [host, port] \<Rightarrow>
                           (case py_int port of Inl x \<Rightarrow> Inl x | Inr p \<Rightarrow> Inr (host, p))
                       | _ \<Rightarrow> Inl ValueError)
                 else Inr (netloc, 80)) of
             Inl x \<Rightarrow> ([], Inl x)
           | Inr (host, port) \<Rightarrow>
               (case connect e (Tcp host port) of
                  Returns \<Rightarrow> ([Connect (Tcp host port) True], Inr True)
                | Raises x \<Rightarrow>
                    if x = OSError then ([Connect (Tcp host port) False], Inr False)
                    else ([Connect (Tcp host port) False], Inl x))))"

text \<open>\<open>_send_request\<close>: the text of the request, which is encoded and handed to \<open>soc.send\<close>.\<close>

definition request_bytes ::
  "request \<Rightarrow> string \<Rightarrow> string \<Rightarrow> string \<Rightarrow> string \<Rightarrow> string \<Rightarrow> string" where
  "request_bytes r scm netloc p params query =
     (let base = method r @ '' '' @ urlunparse (scm, netloc, p, params, query, [])
                   @ '' HTTP/1.0'';
          req = [base] @ map (\<lambda>(hdr, val). hdr @ '': '' @ val) (headers r)
      in join CRLF req @ CRLF @ CRLF)"

definition send_request ::
  "env \<Rightarrow> request \<Rightarrow> string \<Rightarrow> string \<Rightarrow> string \<Rightarrow> string \<Rightarrow> string
   \<Rightarrow> event list \<times> (exn + unit)" where
  "send_request e r scm netloc p params query =
     (case encode_ascii (request_bytes r scm netloc p params query) of
        Inl x \<Rightarrow> ([], Inl x)
      | Inr req_bytes \<Rightarrow>
          (case far_send e req_bytes of
             Returns \<Rightarrow> ([SendFar req_bytes], Inr ())
           | Raises x \<Rightarrow> ([SendFar req_bytes], Inl x)))"

definition do_read_write :: "env \<Rightarrow> event list \<times> (exn + unit)" where
  "do_read_write e =
     (case read_write e of
        Returns \<Rightarrow> ([ReadWrite], Inr ())
      | Raises x \<Rightarrow> ([ReadWrite], Inl x))"

text \<open>\<open>try: a; b finally: cleanup(soc)\<close> after the events \<open>tr\<close>.\<close>

definition try_finally_far ::
  "event list \<Rightarrow> event list \<times> (exn + unit) \<Rightarrow> (unit \<Rightarrow> event list \<times> (exn + unit))
   \<Rightarrow> event list \<times> (exn + unit)" where
  "try_finally_far tr a b =
     (case a of
        (tr1, Inl x) \<Rightarrow> (tr @ tr1 @ [CloseFar], Inl x)
      | (tr1, Inr u) \<Rightarrow>
          (case b () of (tr2, res) \<Rightarrow> (tr @ tr1 @ tr2 @ [CloseFar], res)))"

definition connect_reply :: string where
  "connect_reply =
     join CRLF [''HTTP/1.1 200 Connection established'', ''Proxy-agent: '' @ server_version]
       @ CRLF @ CRLF"

definition do_CONNECT :: "env \<Rightarrow> request \<Rightarrow> event list \<times> (exn + unit)" where
  "do_CONNECT e r =
     (case connect_to e (path r) of
        (tr, Inl x) \<Rightarrow> (tr, Inl x)
      | (tr, Inr False) \<Rightarrow> (tr, Inr ())
      | (tr, Inr True) \<Rightarrow>
          try_finally_far tr
            (case encode_ascii connect_reply of
               Inl x \<Rightarrow> ([], Inl x)
             | Inr reply \<Rightarrow>
                 (case near_send e reply of
                    Returns \<Rightarrow> ([SendNear reply], Inr ())
                  | Raises x \<Rightarrow> ([SendNear reply], Inl x)))
            (\<lambda>_. do_read_write e))"

text \<open>The lines of \<open>handle_others\<close> that rewrite the \<open>Connection\<close> header.\<close>

definition normalize_connection :: "headers \<Rightarrow> exn + headers" where
  "normalize_connection hs =
     (case getitem hs ''Connection'' of
        None \<Rightarrow> Inr hs
      | Some conn_hdr \<Rightarrow>
          if conn_hdr \<noteq> [] then replace_header (delitem hs conn_hdr) ''Connection'' ''close''
          else Inr hs)"

definition handle_others :: "env \<Rightarrow> request \<Rightarrow> event list \<times> (exn + unit)" where
  "handle_others e r =
     (case urlparse (path r) ''http'' of
        Inl x \<Rightarrow> ([], Inl x)
      | Inr (scm, netloc, p, params, query, fragment) \<Rightarrow>
          if scm \<noteq> ''http'' \<or> netloc = [] then ([], Inr ())
          else
            (case normalize_connection (headers r) of
               Inl x \<Rightarrow> ([], Inl x)
             | Inr hs \<Rightarrow>
                 (case connect_to e netloc of
                    (tr, Inl x) \<Rightarrow> (tr, Inl x)
                  | (tr, Inr False) \<Rightarrow> (tr, Inr ())
                  | (tr, Inr True) \<Rightarrow>
                      try_finally_far tr
                        (send_request e (r\<lparr>headers := hs\<rparr>) scm netloc p params query)
                        (\<lambda>_. do_read_write e))))"

definition handle_request :: "env \<Rightarrow> request \<Rightarrow> event list \<times> (exn + unit)" where
  "handle_request e r =
     (if method r = ''CONNECT'' then do_CONNECT e r
      else if method r \<in> set [''GET'', ''HEAD'', ''POST'', ''PUT'', ''DELETE'']
      then handle_others e r
      else ([], Inr ()))"

text \<open>
  \<open>ConnectionHandler.__init__\<close>, given the dispatch of the class: parse, handle, and
  \<open>cleanup(self.connection)\<close> in the \<open>finally\<close> clause.
\<close>

definition handler_init ::
  "(request \<Rightarrow> event list \<times> (exn + unit)) \<Rightarrow> string \<Rightarrow> event list \<times> (exn + unit)" where
  "handler_init dispatch s =
     (case fst (parse_request s) of
        Inl x \<Rightarrow> ([CloseNear], Inl x)
      | Inr None \<Rightarrow> ([CloseNear], Inr ())
      | Inr (Some r) \<Rightarrow> (case dispatch r of (tr, res) \<Rightarrow> (tr @ [CloseNear], res)))"

definition ConnectionHandler :: "env \<Rightarrow> string \<Rightarrow> event list \<times> (exn + unit)" where
  "ConnectionHandler e s = handler_init (handle_request e) s"

subsection \<open>ForwardingProxyConnectionHandler\<close>

definition unix_target_proxy :: "string \<times> int" where
  "unix_target_proxy = (''127.0.0.1'', 9090)"

definition scion_target_proxy :: "string \<times> int" where
  "scion_target_proxy = (''127.2.26.254'', 9090)"

definition isd_ad :: "int \<times> int" where
  "isd_ad = (2, 26)"

text \<open>\<open>_unix_client_socket\<close>: after an \<open>OSError\<close> of \<open>connect\<close> the socket is cleaned up and
  \<open>None\<close> is returned (\<open>Inr False\<close>).\<close>

definition unix_client_socket :: "env \<Rightarrow> event list \<times> (exn + bool)" where
  "unix_client_socket e =
     (case new_socket e of
        Raises x \<Rightarrow> ([], Inl x)
      | Returns \<Rightarrow>
          (let d = Tcp (fst unix_target_proxy) (snd unix_target_proxy) in
           case connect e d of
             Returns \<Rightarrow> ([Connect d True], Inr True)
           | Raises x \<Rightarrow>
               if x = OSError then ([Connect d False, CloseFar], Inr False)
               else ([Connect d False], Inl x)))"

definition connect_to_target_proxy :: "env \<Rightarrow> bool \<Rightarrow> event list \<times> (exn + bool)" where
  "connect_to_target_proxy e scion_mode =
     (if scion_mode then
        (let d = Scion isd_ad (fst scion_target_proxy) (snd scion_target_proxy) in
         case connect e d of
           Returns \<Rightarrow> ([Connect d True], Inr True)
         | Raises x \<Rightarrow> ([Connect d False], Inl x))
      else unix_client_socket e)"

definition relay_all :: "env \<Rightarrow> bool \<Rightarrow> request \<Rightarrow> event list \<times> (exn + unit)" where
  "relay_all e scion_mode r =
     (case urlparse (path r) [] of
        Inl x \<Rightarrow> ([], Inl x)
      | Inr (scm, netloc, p, params, query, fragment) \<Rightarrow>
          (case connect_to_target_proxy e scion_mode of
             (tr, Inl x) \<Rightarrow> (tr, Inl x)
           | (tr, Inr False) \<Rightarrow> (tr, Inr ())
           | (tr, Inr True) \<Rightarrow>
               try_finally_far tr
                 (send_request e r scm netloc p params query)
                 (\<lambda>_. do_read_write e)))"

definition handle_request_forwarding ::
  "env \<Rightarrow> bool \<Rightarrow> request \<Rightarrow> event list \<times> (exn + unit)" where
  "handle_request_forwarding e scion_mode r =
     (if method r \<in> set [''CONNECT'', ''GET'', ''HEAD'', ''POST'', ''PUT'', ''DELETE'']
      then relay_all e scion_mode r
      else ([], Inr ()))"

definition ForwardingProxyConnectionHandler ::
  "env \<Rightarrow> bool \<Rightarrow> string \<Rightarrow> event list \<times> (exn + unit)" where
  "ForwardingProxyConnectionHandler e scion_mode s =
     handler_init (handle_request_forwarding e scion_mode) s"

text \<open>An environment in which every call on a socket returns.\<close>

definition env_ok :: env where
  "env_ok = \<lparr>new_socket = Returns, connect = (\<lambda>_. Returns), near_send = (\<lambda>_. Returns),
            far_send = (\<lambda>_. Returns), read_write = Returns\<rparr>"

subsection \<open>Notions used to state the handlers' properties\<close>

text \<open>The client's socket has been closed when the handler ends: \<open>cleanup\<close> of it is the last
  event.\<close>

definition near_closed :: "event list \<Rightarrow> bool" where
  "near_closed tr = (tr \<noteq> [] \<and> last tr = CloseNear)"

text \<open>Every destination socket that was opened is cleaned up later.\<close>

fun far_closed :: "event list \<Rightarrow> bool" where
  "far_closed [] = True"
| "far_closed (Connect d True # tr) = (CloseFar \<in> set tr \<and> far_closed tr)"
| "far_closed (ev # tr) = far_closed tr"

text \<open>An event that opens a destination socket.\<close>

fun opens :: "event \<Rightarrow> bool" where
  "opens (Connect d ok) = ok"
| "opens ev = False"

text \<open>An event of the work between the dial and the cleanup: a send or the relay.\<close>

fun working :: "event \<Rightarrow> bool" where
  "working (SendNear b) = True"
| "working (SendFar b) = True"
| "working ReadWrite = True"
| "working ev = False"

section \<open>Properties of the request parser\<close>

lemma recv_head_done: "2 \<le> lf \<Longrightarrow> recv_head lf data s = Some (data, s)"
  by (simp add: recv_head.simps)

lemma recv_head_Nil: "lf < 2 \<Longrightarrow> recv_head lf data [] = None"
  by (simp add: recv_head.simps)

lemma recv_head_CR: "lf < 2 \<Longrightarrow> recv_head lf data (CR # s) = recv_head lf data s"
  by (subst recv_head.simps) simp

lemma recv_head_byte:
  "lf < 2 \<Longrightarrow> b \<noteq> CR \<Longrightarrow>
   recv_head lf data (b # s) = recv_head (if b = LF then lf + 1 else 0) (data @ [b]) s"
  by (subst recv_head.simps) simp

lemma has_lflf_append_left: "has_lflf xs \<Longrightarrow> has_lflf (xs @ ys)"
  by (induction xs rule: has_lflf.induct) auto

lemma has_lflf_snoc2: "has_lflf (xs @ [LF, LF])"
  by (induction xs rule: has_lflf.induct) auto

lemma recv_head_boundary:
  assumes "lf < 2" and "lf = 1 \<longleftrightarrow> (data \<noteq> [] \<and> last data = LF)"
    and "data @ strip_cr h = d @ [LF, LF]" and "\<not> has_lflf (d @ [LF])"
    and "h \<noteq> []" and "last h = LF"
  shows "recv_head lf data (h @ rest) = Some (d @ [LF, LF], rest)"
  using assms
proof (induction h arbitrary: lf data)
  case Nil
  then show ?case by simp
next
  case (Cons b h)
  show ?case
  proof (cases "b = CR")
    case True
    with Cons.prems have h: "h \<noteq> []" "last h = LF" by (auto split: if_splits)
    from True Cons.prems have "data @ strip_cr h = d @ [LF, LF]" by (simp add: strip_cr_def)
    with Cons.IH [OF Cons.prems(1,2) _ Cons.prems(4) h]
    have "recv_head lf data (h @ rest) = Some (d @ [LF, LF], rest)" by simp
    with True Cons.prems(1) show ?thesis by (simp add: recv_head_CR)
  next
    case False
    let ?lf = "if b = LF then lf + 1 else 0"
    let ?data = "data @ [b]"
    have step: "recv_head lf data ((b # h) @ rest) = recv_head ?lf ?data (h @ rest)"
      using False Cons.prems(1) by (simp add: recv_head_byte)
    have full: "?data @ strip_cr h = d @ [LF, LF]"
      using False Cons.prems(3) by (simp add: strip_cr_def)
    show ?thesis
    proof (cases "?lf < 2")
      case True
      have inv: "?lf = 1 \<longleftrightarrow> (?data \<noteq> [] \<and> last ?data = LF)"
        using True Cons.prems(1,2) by (auto split: if_splits)
      have hne: "h \<noteq> []"
      proof
        assume "h = []"
        with full have "data @ [b] = d @ [LF, LF]" by (simp add: strip_cr_def)
        then have "b = LF" "data = d @ [LF]"
          using append_eq_append_conv [of "data" "d @ [LF]" "[b]" "[LF]"] by auto
        with Cons.prems(2) have "lf = 1" by simp
        with \<open>b = LF\<close> True show False by simp
      qed
      with Cons.prems(6) have hl: "last h = LF" by simp
      from Cons.IH [OF True inv full Cons.prems(4) hne hl] step show ?thesis by simp
    next
      case False
      then have b: "b = LF" and lf: "lf = 1" using Cons.prems(1) by (auto split: if_splits)
      with Cons.prems(2) obtain d0 where d0: "data = d0 @ [LF]"
        by (metis append_butlast_last_id)
      have sh: "strip_cr h = []"
      proof (rule ccontr)
        assume ne: "strip_cr h \<noteq> []"
        from full have "butlast (?data @ strip_cr h) = butlast (d @ [LF, LF])" by simp
        with ne have "?data @ butlast (strip_cr h) = d @ [LF]"
          by (simp add: butlast_append)
        moreover have "has_lflf (?data @ butlast (strip_cr h))"
          using b d0 has_lflf_append_left [OF has_lflf_snoc2 [of d0], of "butlast (strip_cr h)"]
          by simp
        ultimately show False using Cons.prems(4) by simp
      qed
      have "h = []"
      proof (rule ccontr)
        assume "h \<noteq> []"
        with Cons.prems(6) have "last h = LF" by simp
        with \<open>h \<noteq> []\<close> have "LF \<in> set (strip_cr h)"
          using last_in_set [of h] by (simp add: strip_cr_def)
        with sh show False by simp
      qed
      with full have "?data = d @ [LF, LF]" by (simp add: strip_cr_def)
      with step False \<open>h = []\<close> show ?thesis by (simp add: recv_head_done)
    qed
  qed
qed


lemma recv_head_strip:
  "map_option fst (recv_head lf data s) = map_option fst (recv_head lf data (strip_cr s))"
proof (induction s arbitrary: lf data)
  case Nil
  then show ?case by (simp add: strip_cr_def)
next
  case (Cons b s)
  show ?case
  proof (cases "lf < 2")
    case True
    then show ?thesis
      using Cons.IH by (cases "b = CR") (simp_all add: strip_cr_def recv_head_CR recv_head_byte)
  next
    case False
    then show ?thesis by (simp add: recv_head_done)
  qed
qed

lemma recv_head_no_CR:
  "recv_head lf data s = Some (d, r) \<Longrightarrow> CR \<notin> set data \<Longrightarrow> CR \<notin> set d"
proof (induction s arbitrary: lf data)
  case Nil
  then show ?case by (cases "lf < 2") (simp_all add: recv_head_Nil recv_head_done)
next
  case (Cons b s)
  show ?case
  proof (cases "lf < 2")
    case True
    show ?thesis
    proof (cases "b = CR")
      case True
      with \<open>lf < 2\<close> Cons show ?thesis by (simp add: recv_head_CR)
    next
      case False
      with \<open>lf < 2\<close> Cons.prems
      have "recv_head (if b = LF then lf + 1 else 0) (data @ [b]) s = Some (d, r)"
        by (simp add: recv_head_byte)
      moreover have "CR \<notin> set (data @ [b])" using False Cons.prems(2) by simp
      ultimately show ?thesis by (rule Cons.IH)
    qed
  next
    case False
    with Cons.prems show ?thesis by (simp add: recv_head_done)
  qed
qed

lemma split_chr_not_Nil: "split_chr c s \<noteq> []"
  by (induction s) (auto split: list.splits)

lemma split_chr_set: "x \<in> set (split_chr c s) \<Longrightarrow> set x \<subseteq> set s"
proof (induction s arbitrary: x)
  case Nil
  then show ?case by simp
next
  case (Cons a s)
  show ?case
  proof (cases "a = c")
    case True
    with Cons show ?thesis by auto
  next
    case False
    obtain y ys where y: "split_chr c s = y # ys"
      using split_chr_not_Nil [of c s] by (cases "split_chr c s") auto
    with False Cons.prems have "x = a # y \<or> x \<in> set ys" by simp
    then show ?thesis
    proof
      assume "x = a # y"
      moreover have "set y \<subseteq> set s" using Cons.IH [of y] y by simp
      ultimately show ?thesis by auto
    next
      assume "x \<in> set ys"
      then have "set x \<subseteq> set s" using Cons.IH [of x] y by simp
      then show ?thesis by auto
    qed
  qed
qed

lemma split1_set: "split1 sep s = Some (a, b) \<Longrightarrow> set a \<subseteq> set s \<and> set b \<subseteq> set s"
proof (induction s arbitrary: a b)
  case Nil
  then show ?case by simp
next
  case (Cons x s)
  show ?case
  proof (cases "take (length sep) (x # s) = sep")
    case True
    with Cons.prems have "a = []" "b = drop (length sep) (x # s)" by simp_all
    then show ?thesis using set_drop_subset [of "length sep" "x # s"] by simp
  next
    case False
    with Cons.prems obtain a' where "split1 sep s = Some (a', b)" "a = x # a'"
      by (auto split: option.splits)
    with Cons.IH [of a' b] show ?thesis by auto
  qed
qed

lemma header_lines_set:
  "header_lines ls hs = Inr hs' \<Longrightarrow> (n, v) \<in> set hs' \<Longrightarrow>
   (n, v) \<in> set hs \<or> (\<exists>l \<in> set ls. set n \<subseteq> set l \<and> set v \<subseteq> set l)"
proof (induction ls arbitrary: hs)
  case Nil
  then show ?case by simp
next
  case (Cons l ls)
  show ?case
  proof (cases "l = []")
    case True
    with Cons.prems show ?thesis by simp
  next
    case False
    with Cons.prems obtain a b where ab: "split1 '': '' l = Some (a, b)"
      and rec: "header_lines ls (add_header hs a b) = Inr hs'"
      by (auto split: option.splits)
    from Cons.IH [OF rec Cons.prems(2)]
    have "(n, v) \<in> set (add_header hs a b) \<or> (\<exists>l \<in> set ls. set n \<subseteq> set l \<and> set v \<subseteq> set l)" .
    then show ?thesis
      using split1_set [OF ab] by (auto simp: add_header_def)
  qed
qed


lemma split_chr_none: "c \<notin> set l \<Longrightarrow> split_chr c l = [l]"
  by (induction l) auto













lemma lower_chr_idem: "lower_chr (lower_chr c) = lower_chr c"
  by (auto simp: lower_chr_def split: option.splits if_splits)

lemma lower_idem: "lower (lower s) = lower s"
  by (simp add: lower_def lower_chr_idem)















lemma parse_request_rest:
  "recv_head 0 [] s = Some (data, rest) \<Longrightarrow> snd (parse_request s) = rest"
  by (simp add: parse_request_def split: sum.splits list.splits)

lemma parse_request_SomeD:
  assumes "fst (parse_request s) = Inr (Some r)"
  shows "\<exists>data rest first lines. recv_head 0 [] s = Some (data, rest) \<and> list_all is_ascii data
           \<and> split_chr LF data = first # lines
           \<and> split_chr (CHR '' '') first = [method r, path r, protocol r]
           \<and> header_lines lines [] = Inr (headers r)"
proof (cases "recv_head 0 [] s")
  case None
  with assms show ?thesis by (simp add: parse_request_def)
next
  case (Some p)
  obtain data rest where p: "p = (data, rest)" by (cases p)
  show ?thesis
  proof (cases "list_all is_ascii data")
    case False
    with assms Some p show ?thesis by (simp add: parse_request_def decode_ascii_def)
  next
    case True
    obtain first lines where fl: "split_chr LF data = first # lines"
      using split_chr_not_Nil [of LF data] by (cases "split_chr LF data") auto
    from assms Some p True fl
    have "fst (case split_chr (CHR '' '') first of
                 [m, p, v] \<Rightarrow>
                   (case header_lines lines [] of
                      Inl e \<Rightarrow> (Inl e, rest)
                    | Inr hs \<Rightarrow>
                        (Inr (Some \<lparr>method = m, path = p, protocol = v, headers = hs\<rparr>), rest))
               | _ \<Rightarrow> (Inl ValueError, rest)) = Inr (Some r)"
      by (simp add: parse_request_def decode_ascii_def)
    then have "split_chr (CHR '' '') first = [method r, path r, protocol r]
               \<and> header_lines lines [] = Inr (headers r)"
      by (auto split: list.splits sum.splits)
    with Some p True fl show ?thesis by simp
  qed
qed


lemma parse_request_cong:
  assumes "map_option fst (recv_head 0 [] s) = map_option fst (recv_head 0 [] s')"
  shows "fst (parse_request s) = fst (parse_request s')"
proof (cases "recv_head 0 [] s")
  case None
  with assms have "recv_head 0 [] s' = None" by simp
  with None show ?thesis by (simp add: parse_request_def)
next
  case (Some p)
  obtain data rest where p: "p = (data, rest)" by (cases p)
  with assms Some obtain rest' where s': "recv_head 0 [] s' = Some (data, rest')"
    by (cases "recv_head 0 [] s'") auto
  show ?thesis
    unfolding parse_request_def Some p s'
    by (simp split: sum.splits list.splits)
qed

text \<open>
  Claim C7. When the client's stream starts with a complete header block \<open>h\<close> (its last
  byte is a line feed, and with the carriage returns dropped it ends with two line feeds
  and has no two consecutive line feeds earlier), the read loop consumes exactly \<open>h\<close>: the
  bytes after it are left on the connection, whatever the parser then makes of the head.
\<close>

theorem parse_request_stops_at_boundary:
  assumes "strip_cr h = d @ [LF, LF]" and "\<not> has_lflf (d @ [LF])" and "last h = LF"
  shows "recv_head 0 [] (h @ rest) = Some (d @ [LF, LF], rest)
         \<and> snd (parse_request (h @ rest)) = rest"
proof -
  from assms(1) have hne: "h \<noteq> []" by (auto simp: strip_cr_def)
  from assms(1) have "[] @ strip_cr h = d @ [LF, LF]" by simp
  from recv_head_boundary [OF _ _ this assms(2) hne assms(3), of 0 rest]
  have "recv_head 0 [] (h @ rest) = Some (d @ [LF, LF], rest)" by simp
  then show ?thesis using parse_request_rest by blast
qed

theorem parse_request_stops_at_boundary_witness:
  "strip_cr (''GET / HTTP/1.1'' @ CRLF @ CRLF) = ''GET / HTTP/1.1'' @ [LF, LF]
   \<and> \<not> has_lflf (''GET / HTTP/1.1'' @ [LF])
   \<and> last (''GET / HTTP/1.1'' @ CRLF @ CRLF) = LF
   \<and> recv_head 0 [] ((''GET / HTTP/1.1'' @ CRLF @ CRLF) @ ''body'') =
       Some (''GET / HTTP/1.1'' @ [LF, LF], ''body'')
   \<and> snd (parse_request ((''GET / HTTP/1.1'' @ CRLF @ CRLF) @ ''body'')) = ''body''"
proof -
  have a: "strip_cr (''GET / HTTP/1.1'' @ CRLF @ CRLF) = ''GET / HTTP/1.1'' @ [LF, LF]"
    by (simp add: strip_cr_def)
  have b: "\<not> has_lflf (''GET / HTTP/1.1'' @ [LF])" by simp
  have c: "last (''GET / HTTP/1.1'' @ CRLF @ CRLF) = LF" by simp
  from parse_request_stops_at_boundary [OF a b c, of "''body''"] a b c show ?thesis
    by blast
qed

text \<open>
  Claim C10. Carriage returns are dropped wherever they stand: the outcome of the parser
  is the outcome on the stream with every carriage return removed, a carriage return
  leaves the count of consecutive line feeds as it is, and no field of a parsed request
  (method, target, version, header names and values) contains a carriage return.
\<close>

theorem parse_request_drops_cr:
  "fst (parse_request s) = fst (parse_request (strip_cr s))
   \<and> (lf < 2 \<longrightarrow> recv_head lf data (CR # s) = recv_head lf data s)
   \<and> (\<forall>r. fst (parse_request s) = Inr (Some r) \<longrightarrow>
         CR \<notin> set (method r) \<and> CR \<notin> set (path r) \<and> CR \<notin> set (protocol r)
         \<and> (\<forall>h \<in> set (headers r). CR \<notin> set (fst h) \<and> CR \<notin> set (snd h)))"
proof (intro conjI allI impI ballI)
  show "fst (parse_request s) = fst (parse_request (strip_cr s))"
    by (rule parse_request_cong) (rule recv_head_strip)
next
  assume "lf < 2"
  then show "recv_head lf data (CR # s) = recv_head lf data s" by (rule recv_head_CR)
next
  fix r
  assume ok: "fst (parse_request s) = Inr (Some r)"
  from parse_request_SomeD [OF ok] obtain dat rest first lines where
    rh: "recv_head 0 [] s = Some (dat, rest)" and
    sl: "split_chr LF dat = first # lines" and
    s3: "split_chr (CHR '' '') first = [method r, path r, protocol r]" and
    hl: "header_lines lines [] = Inr (headers r)"
    by blast
  have nocr: "CR \<notin> set dat" using recv_head_no_CR [OF rh] by simp
  have line: "set l \<subseteq> set dat" if "l \<in> set (first # lines)" for l
    using split_chr_set [of l LF dat] that sl by simp
  have field: "set f \<subseteq> set dat" if "f \<in> set [method r, path r, protocol r]" for f
  proof -
    from that s3 have "set f \<subseteq> set first" using split_chr_set [of f "CHR '' ''" first] by simp
    with line [of first] show ?thesis by auto
  qed
  show "CR \<notin> set (method r)" using field [of "method r"] nocr by auto
  show "CR \<notin> set (path r)" using field [of "path r"] nocr by auto
  show "CR \<notin> set (protocol r)" using field [of "protocol r"] nocr by auto
  fix h assume h: "h \<in> set (headers r)"
  obtain n v where nv: "h = (n, v)" by (cases h)
  with header_lines_set [OF hl, of n v] h
  obtain l where "l \<in> set lines" "set n \<subseteq> set l" "set v \<subseteq> set l" by auto
  with line [of l] nocr nv show "CR \<notin> set (fst h)" by auto
  from \<open>l \<in> set lines\<close> \<open>set v \<subseteq> set l\<close> line [of l] nocr nv
  show "CR \<notin> set (snd h)" by auto
qed

theorem parse_request_drops_cr_witness:
  "(1::nat) < 2
   \<and> fst (parse_request (''GE'' @ [CR] @ ''T / HTTP/1.1'' @ [LF] @ ''A: b'' @ [CR] @ ''c''
            @ [LF, CR, LF] @ ''body''))
       = Inr (Some \<lparr>method = ''GET'', path = ''/'', protocol = ''HTTP/1.1'',
                     headers = [(''A'', ''bc'')]\<rparr>)
   \<and> fst (parse_request (strip_cr (''GE'' @ [CR] @ ''T / HTTP/1.1'' @ [LF] @ ''A: b'' @ [CR] @ ''c''
            @ [LF, CR, LF] @ ''body'')))
       = Inr (Some \<lparr>method = ''GET'', path = ''/'', protocol = ''HTTP/1.1'',
                     headers = [(''A'', ''bc'')]\<rparr>)
   \<and> recv_head 1 ''x'' (CR # ''GE'' @ [CR] @ ''T / HTTP/1.1'' @ [LF] @ ''A: b'' @ [CR] @ ''c''
            @ [LF, CR, LF] @ ''body'')
       = recv_head 1 ''x'' (''GE'' @ [CR] @ ''T / HTTP/1.1'' @ [LF] @ ''A: b'' @ [CR] @ ''c''
            @ [LF, CR, LF] @ ''body'')
   \<and> CR \<notin> set ''GET'' \<and> CR \<notin> set ''bc''"
proof -
  let ?S = "''GE'' @ [CR] @ ''T / HTTP/1.1'' @ [LF] @ ''A: b'' @ [CR] @ ''c''
            @ [LF, CR, LF] @ ''body''"
  let ?R = "\<lparr>method = ''GET'', path = ''/'', protocol = ''HTTP/1.1'', headers = [(''A'', ''bc'')]\<rparr>"
  have one: "(1::nat) < 2" by simp
  have p: "fst (parse_request ?S) = Inr (Some ?R)"
    by (simp add: parse_request_def recv_head.simps decode_ascii_def is_ascii_def add_header_def)
  note t = parse_request_drops_cr [of ?S 1 "''x''"]
  from t have c1: "fst (parse_request ?S) = fst (parse_request (strip_cr ?S))" by (rule conjunct1)
  from t one have c2: "recv_head 1 ''x'' (CR # ?S) = recv_head 1 ''x'' ?S" by blast
  from p have q: "fst (parse_request (strip_cr ?S)) = Inr (Some ?R)" unfolding c1 .
  have d: "CR \<notin> set ''GET''" "CR \<notin> set ''bc''" by simp_all
  from one p q c2 d show ?thesis by (intro conjI)
qed

section \<open>Properties of the relay\<close>

lemma recv_None: "recv n r = (None, r') \<Longrightarrow> payload r = [] \<and> r' = after_end r"
  by (induction n r rule: recv.induct) (auto split: if_splits)

lemma recv_eof: "recv n r = (Some [], r') \<Longrightarrow> 0 < n \<Longrightarrow> payload r = [] \<and> r' = after_end r"
  by (induction n r rule: recv.induct) (auto split: if_splits)

lemma recv_data:
  "recv n r = (Some d, r') \<Longrightarrow> d \<noteq> [] \<Longrightarrow>
   payload r = d @ payload r' \<and> after_end r' = after_end r \<and> length d \<le> n"
  by (induction n r rule: recv.induct) (auto split: if_splits)

lemma run_None: "ProxyData_read r = (None, r') \<Longrightarrow> ProxyData_run r w = (r', shutdown w)"
  by (subst ProxyData_run.simps) simp

lemma run_eof: "ProxyData_read r = (Some [], r') \<Longrightarrow> ProxyData_run r w = (r', shutdown w)"
  by (subst ProxyData_run.simps) simp

lemma run_write_fails:
  "ProxyData_read r = (Some d, r') \<Longrightarrow> d \<noteq> [] \<Longrightarrow> ProxyData_write w d = (False, w') \<Longrightarrow>
   ProxyData_run r w = (r', shutdown w')"
  by (subst ProxyData_run.simps) simp

lemma run_continue:
  "ProxyData_read r = (Some d, r') \<Longrightarrow> d \<noteq> [] \<Longrightarrow> ProxyData_write w d = (True, w') \<Longrightarrow>
   ProxyData_run r w = ProxyData_run r' w'"
  by (subst ProxyData_run.simps) simp

lemma run_bytes:
  "concat (sent (snd (ProxyData_run r w))) = concat (sent w) @ delivered (capacity w) (payload r)
   \<and> shut (snd (ProxyData_run r w))
   \<and> take (length (sent w)) (sent (snd (ProxyData_run r w))) = sent w
   \<and> (\<forall>c \<in> set (drop (length (sent w)) (sent (snd (ProxyData_run r w)))). length c \<le> BUFLEN)"
proof (induction r w rule: ProxyData_run.induct)
  case (1 r w)
  obtain x r' where rd: "ProxyData_read r = (x, r')" by (cases "ProxyData_read r")
  then have rc: "recv BUFLEN r = (x, r')" by (simp add: ProxyData_read_def)
  show ?case
  proof (cases x)
    case None
    with rd have "ProxyData_run r w = (r', shutdown w)" by (simp add: run_None)
    moreover from rc None have "payload r = []" "r' = after_end r" using recv_None by blast+
    ultimately show ?thesis by (simp add: shutdown_def delivered_def split: option.splits)
  next
    case (Some d)
    show ?thesis
    proof (cases "d = []")
      case True
      with rd Some have "ProxyData_run r w = (r', shutdown w)" by (simp add: run_eof)
      moreover from rc Some True have "payload r = []" "r' = after_end r"
        using recv_eof [of BUFLEN r r'] by (simp_all add: BUFLEN_def)
      ultimately show ?thesis by (simp add: shutdown_def delivered_def split: option.splits)
    next
      case False
      from recv_data [of BUFLEN r d r'] rc Some False
      have pl: "payload r = d @ payload r'" and ae: "after_end r' = after_end r"
        and len: "length d \<le> BUFLEN" by simp_all
      obtain ok w' where wr: "ProxyData_write w d = (ok, w')" by (cases "ProxyData_write w d")
      show ?thesis
      proof (cases ok)
        case False
        with rd Some \<open>d \<noteq> []\<close> wr have run: "ProxyData_run r w = (r', shutdown w')"
          by (simp add: run_write_fails)
        from wr False obtain k where k: "capacity w = Some k" "k < length d"
          "w' = w\<lparr>sent := sent w @ [take k d], capacity := Some 0\<rparr>"
          by (auto simp: ProxyData_write_def sendall_def split: option.splits if_splits)
        with run pl len show ?thesis by (simp add: shutdown_def delivered_def)
      next
        case True
        with rd Some \<open>d \<noteq> []\<close> wr have run: "ProxyData_run r w = ProxyData_run r' w'"
          by (simp add: run_continue)
        from True wr have w': "sent w' = sent w @ [d]"
          "capacity w' = (case capacity w of None \<Rightarrow> None | Some k \<Rightarrow> Some (k - length d))"
          "case capacity w of None \<Rightarrow> True | Some k \<Rightarrow> length d \<le> k"
          by (auto simp: ProxyData_write_def sendall_def split: option.splits if_splits)
        from True have okT: "ok = True" by simp
        note ih = "1.IH" [OF rd [symmetric] Some \<open>d \<noteq> []\<close> wr [symmetric] okT]
        from ih have a: "concat (sent (snd (ProxyData_run r' w'))) =
            concat (sent w') @ delivered (capacity w') (payload r')" by blast
        from ih have b: "shut (snd (ProxyData_run r' w'))" by blast
        from ih have c: "take (length (sent w')) (sent (snd (ProxyData_run r' w'))) = sent w'"
          by blast
        from ih have e: "\<forall>c \<in> set (drop (length (sent w')) (sent (snd (ProxyData_run r' w')))).
            length c \<le> BUFLEN" by blast
        let ?out = "sent (snd (ProxyData_run r' w'))"
        have del: "d @ delivered (capacity w') (payload r') = delivered (capacity w) (payload r)"
          using w'(2,3) pl by (auto simp: delivered_def split: option.splits)
        have c1: "concat ?out = concat (sent w) @ delivered (capacity w) (payload r)"
          using a w'(1) del by simp
        from c w'(1) have tk: "take (Suc (length (sent w))) ?out = sent w @ [d]" by simp
        then have c3: "take (length (sent w)) ?out = sent w"
          by (metis append_eq_conv_conj butlast_snoc butlast_take diff_Suc_1 length_take
              lessI min.absorb2 nat_less_le take_all_iff not_le take_butlast)
        have c4: "\<forall>c \<in> set (drop (length (sent w)) ?out). length c \<le> BUFLEN"
        proof
          fix c assume "c \<in> set (drop (length (sent w)) ?out)"
          moreover have "drop (length (sent w)) ?out = d # drop (Suc (length (sent w))) ?out"
            using tk
            by (metis Cons_nth_drop_Suc length_append_singleton length_take lessI
                min_less_iff_conj nth_append_length nth_take)
          ultimately have "c = d \<or> c \<in> set (drop (length (sent w')) ?out)"
            using w'(1) by auto
          with e len show "length c \<le> BUFLEN" by blast
        qed
        from c1 b c3 c4 show ?thesis unfolding run by blast
      qed
    qed
  qed
qed

lemma run_sent_split:
  "sent (snd (ProxyData_run r w)) = sent w @ drop (length (sent w)) (sent (snd (ProxyData_run r w)))"
proof -
  have "take (length (sent w)) (sent (snd (ProxyData_run r w))) = sent w"
    using run_bytes [of r w] by blast
  then show ?thesis
    using append_take_drop_id [of "length (sent w)" "sent (snd (ProxyData_run r w))"] by simp
qed

lemma reads_data:
  "ProxyData_read r = (Some d, r') \<Longrightarrow> d \<noteq> [] \<Longrightarrow> reads (Suc n) r = d # reads n r'"
  by simp

lemma after_reads_step: "ProxyData_read r = (x, r') \<Longrightarrow> after_reads (Suc n) r = after_reads n r'"
  by simp

lemma run_stops_source:
  "takes_all (capacity w) (payload r) \<Longrightarrow>
   fst (ProxyData_run r w) = after_end r
   \<and> (\<exists>n. drop (length (sent w)) (sent (snd (ProxyData_run r w))) = reads (Suc n) r
          \<and> length (reads (Suc n) r) = n
          \<and> fst (ProxyData_run r w) = after_reads (Suc n) r)"
proof (induction r w rule: ProxyData_run.induct)
  case (1 r w)
  obtain x r' where rd: "ProxyData_read r = (x, r')" by (cases "ProxyData_read r")
  then have rc: "recv BUFLEN r = (x, r')" by (simp add: ProxyData_read_def)
  show ?case
  proof (cases x)
    case None
    with rd have run: "ProxyData_run r w = (r', shutdown w)" by (simp add: run_None)
    from rc None have "r' = after_end r" using recv_None by blast
    moreover have "reads (Suc 0) r = []" "after_reads (Suc 0) r = r'"
      using rd None by simp_all
    ultimately have "fst (ProxyData_run r w) = after_end r
        \<and> drop (length (sent w)) (sent (snd (ProxyData_run r w))) = reads (Suc 0) r
        \<and> length (reads (Suc 0) r) = 0
        \<and> fst (ProxyData_run r w) = after_reads (Suc 0) r"
      unfolding run by (simp add: shutdown_def)
    then show ?thesis by blast
  next
    case (Some d)
    show ?thesis
    proof (cases "d = []")
      case True
      with rd Some have run: "ProxyData_run r w = (r', shutdown w)" by (simp add: run_eof)
      from rc Some True have "r' = after_end r"
        using recv_eof [of BUFLEN r r'] by (simp add: BUFLEN_def)
      moreover have "reads (Suc 0) r = []" "after_reads (Suc 0) r = r'"
        using rd Some True by simp_all
      ultimately have "fst (ProxyData_run r w) = after_end r
          \<and> drop (length (sent w)) (sent (snd (ProxyData_run r w))) = reads (Suc 0) r
          \<and> length (reads (Suc 0) r) = 0
          \<and> fst (ProxyData_run r w) = after_reads (Suc 0) r"
        unfolding run by (simp add: shutdown_def)
      then show ?thesis by blast
    next
      case False
      from recv_data [of BUFLEN r d r'] rc Some False
      have pl: "payload r = d @ payload r'" and ae: "after_end r' = after_end r" by simp_all
      from rd Some have rd': "ProxyData_read r = (Some d, r')" by simp
      obtain ok w' where wr: "ProxyData_write w d = (ok, w')" by (cases "ProxyData_write w d")
      have fits: "case capacity w of None \<Rightarrow> True | Some k \<Rightarrow> length d \<le> k"
        using "1.prems" pl by (simp add: takes_all_def split: option.splits)
      then have okT: "ok = True" and w': "sent w' = sent w @ [d]"
        "capacity w' = (case capacity w of None \<Rightarrow> None | Some k \<Rightarrow> Some (k - length d))"
        using wr by (auto simp: ProxyData_write_def sendall_def split: option.splits if_splits)
      from rd' False wr okT have run: "ProxyData_run r w = ProxyData_run r' w'"
        by (simp add: run_continue)
      have ta: "takes_all (capacity w') (payload r')"
        using "1.prems" pl w'(2) by (auto simp: takes_all_def split: option.splits)
      note ih = "1.IH" [OF rd [symmetric] Some False wr [symmetric] okT ta]
      let ?out = "sent (snd (ProxyData_run r' w'))"
      from ih obtain n where n: "drop (length (sent w')) ?out = reads (Suc n) r'"
        "length (reads (Suc n) r') = n" "fst (ProxyData_run r' w') = after_reads (Suc n) r'"
        by blast
      from ih have e: "fst (ProxyData_run r' w') = after_end r'" by blast
      have "?out = (sent w @ [d]) @ drop (length (sent w')) ?out"
        using run_sent_split [of r' w'] w'(1) by simp
      then have "drop (length (sent w)) ?out = d # drop (length (sent w')) ?out"
        by (metis append.assoc append_Cons append_Nil append_eq_conv_conj)
      with n(1) have a: "drop (length (sent w)) ?out = reads (Suc (Suc n)) r"
        using reads_data [OF rd' False, of "Suc n"] by simp
      have b: "length (reads (Suc (Suc n)) r) = Suc n"
        using reads_data [OF rd' False, of "Suc n"] n(2) by simp
      have c: "fst (ProxyData_run r' w') = after_reads (Suc (Suc n)) r"
        using after_reads_step [OF rd', of "Suc n"] n(3) by simp
      from a b c e ae show ?thesis unfolding run by metis
    qed
  qed
qed

lemma run_stops_write:
  "\<not> takes_all (capacity w) (payload r) \<Longrightarrow>
   \<exists>k cs c. capacity w = Some k
     \<and> reads (Suc (length cs)) r = cs @ [c]
     \<and> drop (length (sent w)) (sent (snd (ProxyData_run r w))) =
         cs @ [take (k - length (concat cs)) c]
     \<and> length (concat cs) \<le> k \<and> k < length (concat cs) + length c
     \<and> fst (ProxyData_run r w) = after_reads (Suc (length cs)) r"
proof (induction r w rule: ProxyData_run.induct)
  case (1 r w)
  from "1.prems" obtain k where k: "capacity w = Some k" "k < length (payload r)"
    by (auto simp: takes_all_def split: option.splits)
  obtain x r' where rd: "ProxyData_read r = (x, r')" by (cases "ProxyData_read r")
  then have rc: "recv BUFLEN r = (x, r')" by (simp add: ProxyData_read_def)
  show ?case
  proof (cases x)
    case None
    with rc have "payload r = []" using recv_None by blast
    with k show ?thesis by simp
  next
    case (Some d)
    show ?thesis
    proof (cases "d = []")
      case True
      with rc Some have "payload r = []"
        using recv_eof [of BUFLEN r r'] by (simp add: BUFLEN_def)
      with k show ?thesis by simp
    next
      case False
      from recv_data [of BUFLEN r d r'] rc Some False
      have pl: "payload r = d @ payload r'" by simp
      from rd Some have rd': "ProxyData_read r = (Some d, r')" by simp
      obtain ok w' where wr: "ProxyData_write w d = (ok, w')" by (cases "ProxyData_write w d")
      show ?thesis
      proof (cases ok)
        case False
        with rd' \<open>d \<noteq> []\<close> wr have run: "ProxyData_run r w = (r', shutdown w')"
          by (simp add: run_write_fails)
        from wr False k(1) have kd: "k < length d"
          and w': "w' = w\<lparr>sent := sent w @ [take k d], capacity := Some 0\<rparr>"
          by (auto simp: ProxyData_write_def sendall_def split: option.splits if_splits)
        have "reads (Suc (length ([]::string list))) r = [] @ [d]"
          using reads_data [OF rd' \<open>d \<noteq> []\<close>, of 0] by simp
        moreover have "drop (length (sent w)) (sent (snd (ProxyData_run r w))) =
            [] @ [take (k - length (concat ([]::string list))) d]"
          unfolding run by (simp add: w' shutdown_def)
        moreover have "fst (ProxyData_run r w) = after_reads (Suc (length ([]::string list))) r"
          unfolding run using rd' by simp
        moreover have "length (concat ([]::string list)) \<le> k"
          "k < length (concat ([]::string list)) + length d"
          using kd by simp_all
        ultimately show ?thesis using k(1) by blast
      next
        case True
        with rd' \<open>d \<noteq> []\<close> wr have run: "ProxyData_run r w = ProxyData_run r' w'"
          by (simp add: run_continue)
        from True wr k(1) have w': "sent w' = sent w @ [d]" "capacity w' = Some (k - length d)"
          "length d \<le> k"
          by (auto simp: ProxyData_write_def sendall_def split: option.splits if_splits)
        from True have okT: "ok = True" by simp
        have ta: "\<not> takes_all (capacity w') (payload r')"
          using k(2) pl w'(2,3) by (simp add: takes_all_def)
        note ih = "1.IH" [OF rd [symmetric] Some \<open>d \<noteq> []\<close> wr [symmetric] okT ta]
        let ?out = "sent (snd (ProxyData_run r' w'))"
        from ih w'(2) obtain cs c where cs: "reads (Suc (length cs)) r' = cs @ [c]"
          "drop (length (sent w')) ?out = cs @ [take (k - length d - length (concat cs)) c]"
          "length (concat cs) \<le> k - length d" "k - length d < length (concat cs) + length c"
          "fst (ProxyData_run r' w') = after_reads (Suc (length cs)) r'"
          by auto
        have "?out = (sent w @ [d]) @ drop (length (sent w')) ?out"
          using run_sent_split [of r' w'] w'(1) by simp
        then have "drop (length (sent w)) ?out = d # drop (length (sent w')) ?out"
          by (metis append.assoc append_Cons append_Nil append_eq_conv_conj)
        with cs(2) have a: "drop (length (sent w)) ?out =
            (d # cs) @ [take (k - length (concat (d # cs))) c]"
          by simp
        have b: "reads (Suc (length (d # cs))) r = (d # cs) @ [c]"
          using reads_data [OF rd' \<open>d \<noteq> []\<close>, of "Suc (length cs)"] cs(1) by simp
        have c: "fst (ProxyData_run r' w') = after_reads (Suc (length (d # cs))) r"
          using after_reads_step [OF rd', of "Suc (length cs)"] cs(5) by simp
        have d: "length (concat (d # cs)) \<le> k" "k < length (concat (d # cs)) + length c"
          using cs(3,4) w'(3) by simp_all
        from a b c d k(1) show ?thesis unfolding run by blast
      qed
    qed
  qed
qed

text \<open>
  Claim C8. One relay direction: the bytes written to the destination are, in order and
  unchanged, the bytes that arrive from the source before its end of stream or first read
  error (all of them when no write fails, otherwise the part the destination took before
  the failing write); every chunk written is at most 8192 bytes long, whatever the sizes
  of the arriving segments (empty, one byte, longer than the buffer); and the destination
  is shut down when the loop has stopped. The loop stops exactly at the first of these
  events. When no write fails, the chunks written are the chunks read, the read after
  the last of them is the one that reports the end of the stream or the error, and
  nothing is read after it. When a write fails, the chunks read before the one that
  fails have been written whole, of the failing chunk the destination holds only the
  bytes it still took, and the source has been read exactly up to and including the
  failing chunk: nothing is read after a failed write.
\<close>

theorem ProxyData_run_relays:
  "concat (sent (snd (ProxyData_run r w))) = concat (sent w) @ delivered (capacity w) (payload r)
   \<and> shut (snd (ProxyData_run r w))
   \<and> take (length (sent w)) (sent (snd (ProxyData_run r w))) = sent w
   \<and> (\<forall>c \<in> set (drop (length (sent w)) (sent (snd (ProxyData_run r w)))). length c \<le> BUFLEN)
   \<and> (takes_all (capacity w) (payload r) \<longrightarrow>
        fst (ProxyData_run r w) = after_end r
        \<and> (\<exists>n. drop (length (sent w)) (sent (snd (ProxyData_run r w))) = reads (Suc n) r
               \<and> length (reads (Suc n) r) = n
               \<and> fst (ProxyData_run r w) = after_reads (Suc n) r))
   \<and> (\<not> takes_all (capacity w) (payload r) \<longrightarrow>
        (\<exists>k cs c. capacity w = Some k
           \<and> reads (Suc (length cs)) r = cs @ [c]
           \<and> drop (length (sent w)) (sent (snd (ProxyData_run r w))) =
               cs @ [take (k - length (concat cs)) c]
           \<and> length (concat cs) \<le> k \<and> k < length (concat cs) + length c
           \<and> fst (ProxyData_run r w) = after_reads (Suc (length cs)) r))"
  using run_bytes [of r w] run_stops_source [of w r] run_stops_write [of w r] by blast

theorem ProxyData_run_relays_witness:
  "ProxyData_run [Bytes ''ab'', Bytes [], Bytes ''c'', RecvError, Bytes ''z'']
        \<lparr>sent = [], capacity = None, shut = False\<rparr>
       = ([Bytes ''z''], \<lparr>sent = [''ab'', ''c''], capacity = None, shut = True\<rparr>)
   \<and> takes_all None ''abc''
   \<and> fst (ProxyData_run [Bytes ''ab'', Bytes [], Bytes ''c'', RecvError, Bytes ''z'']
        \<lparr>sent = [], capacity = None, shut = False\<rparr>) = [Bytes ''z'']
   \<and> concat (sent (snd (ProxyData_run [Bytes ''ab'', Bytes [], Bytes ''c'', RecvError, Bytes ''z'']
        \<lparr>sent = [], capacity = None, shut = False\<rparr>))) = ''abc''
   \<and> list_all (\<lambda>c. length c \<le> BUFLEN) [''ab'', ''c'']
   \<and> concat (sent (snd (ProxyData_run [Bytes (replicate 50000 (CHR ''a''))]
        \<lparr>sent = [], capacity = None, shut = False\<rparr>))) = replicate 50000 (CHR ''a'')
   \<and> list_all (\<lambda>c. length c \<le> 8192) (sent (snd (ProxyData_run
        [Bytes (replicate 50000 (CHR ''a''))] \<lparr>sent = [], capacity = None, shut = False\<rparr>)))
   \<and> \<not> takes_all (Some 3) ''abcdefg''
   \<and> ProxyData_run [Bytes ''ab'', Bytes ''cde'', Bytes ''fg'']
        \<lparr>sent = [''x''], capacity = Some 3, shut = False\<rparr>
       = ([Bytes ''fg''], \<lparr>sent = [''x'', ''ab'', ''c''], capacity = Some 0, shut = True\<rparr>)
   \<and> reads 2 [Bytes ''ab'', Bytes ''cde'', Bytes ''fg''] = [''ab'', ''cde'']
   \<and> after_reads 2 [Bytes ''ab'', Bytes ''cde'', Bytes ''fg''] = [Bytes ''fg'']
   \<and> (\<exists>k cs c. Some 3 = Some k
         \<and> reads (Suc (length cs)) [Bytes ''ab'', Bytes ''cde'', Bytes ''fg''] = cs @ [c]
         \<and> [''ab'', ''c''] = cs @ [take (k - length (concat cs)) c]
         \<and> length (concat cs) \<le> k \<and> k < length (concat cs) + length c
         \<and> [Bytes ''fg''] = after_reads (Suc (length cs)) [Bytes ''ab'', Bytes ''cde'', Bytes ''fg''])"
proof -
  let ?w = "\<lparr>sent = [], capacity = None, shut = False\<rparr>"
  let ?r = "[Bytes ''ab'', Bytes [], Bytes ''c'', RecvError, Bytes ''z'']"
  let ?big = "[Bytes (replicate 50000 (CHR ''a''))]"
  let ?w2 = "\<lparr>sent = [''x''], capacity = Some 3, shut = False\<rparr>"
  let ?r2 = "[Bytes ''ab'', Bytes ''cde'', Bytes ''fg'']"
  have ev: "ProxyData_run ?r ?w = ([Bytes ''z''], \<lparr>sent = [''ab'', ''c''], capacity = None, shut = True\<rparr>)"
    by (simp add: ProxyData_run.simps ProxyData_read_def ProxyData_write_def sendall_def
        shutdown_def BUFLEN_def)
  have ev2: "ProxyData_run ?r2 ?w2 =
      ([Bytes ''fg''], \<lparr>sent = [''x'', ''ab'', ''c''], capacity = Some 0, shut = True\<rparr>)"
    by (simp add: ProxyData_run.simps ProxyData_read_def ProxyData_write_def sendall_def
        shutdown_def BUFLEN_def)
  have t1: "takes_all None ''abc''" by (simp add: takes_all_def)
  have t2: "\<not> takes_all (Some 3) ''abcdefg''" by (simp add: takes_all_def)
  from ProxyData_run_relays [of ?r ?w]
  have a: "concat (sent (snd (ProxyData_run ?r ?w))) = ''abc''"
    and a': "fst (ProxyData_run ?r ?w) = [Bytes ''z'']"
    by (simp_all add: delivered_def takes_all_def)
  from ProxyData_run_relays [of ?big ?w]
  have b: "concat (sent (snd (ProxyData_run ?big ?w))) = replicate 50000 (CHR ''a'')"
    and c: "list_all (\<lambda>c. length c \<le> 8192) (sent (snd (ProxyData_run ?big ?w)))"
    by (simp_all add: delivered_def BUFLEN_def list_all_iff)
  have d: "list_all (\<lambda>c. length c \<le> BUFLEN) [''ab'', ''c'']" by (simp add: BUFLEN_def)
  have rs: "reads 2 ?r2 = [''ab'', ''cde'']" "after_reads 2 ?r2 = [Bytes ''fg'']"
    by (simp_all add: numeral_2_eq_2 ProxyData_read_def BUFLEN_def)
  from ProxyData_run_relays [of ?r2 ?w2] t2
  have f: "\<exists>k cs c. Some 3 = Some k
         \<and> reads (Suc (length cs)) ?r2 = cs @ [c]
         \<and> [''ab'', ''c''] = cs @ [take (k - length (concat cs)) c]
         \<and> length (concat cs) \<le> k \<and> k < length (concat cs) + length c
         \<and> [Bytes ''fg''] = after_reads (Suc (length cs)) ?r2"
    unfolding ev2 by simp
  from ev ev2 t1 t2 a a' b c d rs f show ?thesis by (intro conjI)
qed

section \<open>Properties of the connection handlers\<close>

lemma far_closed_append: "far_closed a \<Longrightarrow> far_closed b \<Longrightarrow> far_closed (a @ b)"
  by (induction a rule: far_closed.induct) auto

lemma far_closed_no_opens: "list_all (\<lambda>ev. \<not> opens ev) tr \<Longrightarrow> far_closed tr"
  by (induction tr rule: far_closed.induct) auto

lemma far_closed_snoc_near: "far_closed tr \<Longrightarrow> far_closed (tr @ [CloseNear])"
  by (rule far_closed_append) simp_all

lemma connect_to_cases:
  assumes "connect_to e n = (tr, res)"
  shows "(\<exists>d. tr = [Connect d True] \<and> res = Inr True)
         \<or> (list_all (\<lambda>ev. \<not> opens ev) tr \<and> res \<noteq> Inr True)"
  using assms unfolding connect_to_def
  by (auto split: outcome.splits sum.splits list.splits if_splits prod.splits)


lemma send_request_trace:
  "list_all (\<lambda>ev. \<not> opens ev) (fst (send_request e r scm netloc p params query))"
  by (simp add: send_request_def split: sum.splits outcome.splits)

lemma encode_connect_reply: "encode_ascii connect_reply = Inr connect_reply"
  by (simp add: encode_ascii_def connect_reply_def server_version_def VERSION_def is_ascii_def)

lemma do_read_write_trace: "fst (do_read_write e) = [ReadWrite]"
  by (simp add: do_read_write_def split: outcome.splits)

lemma try_finally_far_trace:
  "fst (try_finally_far tr a b)
     = tr @ fst a @ (case snd a of Inl x \<Rightarrow> [] | Inr u \<Rightarrow> fst (b ())) @ [CloseFar]"
  by (cases a) (auto simp: try_finally_far_def split: sum.splits prod.splits)

lemma try_finally_far_closed:
  assumes "list_all (\<lambda>ev. \<not> opens ev) (fst a)" and "list_all (\<lambda>ev. \<not> opens ev) (fst (b ()))"
  shows "far_closed (fst (try_finally_far [Connect d True] a b))"
proof -
  have "far_closed (fst a @ (case snd a of Inl x \<Rightarrow> [] | Inr u \<Rightarrow> fst (b ())) @ [CloseFar])"
    using assms by (intro far_closed_no_opens) (auto split: sum.splits)
  then show ?thesis by (simp add: try_finally_far_trace)
qed

lemma do_CONNECT_far_closed: "far_closed (fst (do_CONNECT e r))"
proof -
  obtain tr res where c: "connect_to e (path r) = (tr, res)" by (cases "connect_to e (path r)")
  from connect_to_cases [OF c] show ?thesis
  proof
    assume "\<exists>d. tr = [Connect d True] \<and> res = Inr True"
    then obtain d where d: "tr = [Connect d True]" "res = Inr True" by blast
    have "far_closed (fst (try_finally_far [Connect d True]
            (case near_send e connect_reply of
               Returns \<Rightarrow> ([SendNear connect_reply], Inr ())
             | Raises x \<Rightarrow> ([SendNear connect_reply], Inl x))
            (\<lambda>_. do_read_write e)))"
      by (rule try_finally_far_closed) (simp_all add: do_read_write_trace split: outcome.splits)
    with c d show ?thesis by (simp add: do_CONNECT_def encode_connect_reply)
  next
    assume a: "list_all (\<lambda>ev. \<not> opens ev) tr \<and> res \<noteq> Inr True"
    then have "fst (do_CONNECT e r) = tr"
      using c by (auto simp: do_CONNECT_def split: sum.splits bool.splits)
    with a show ?thesis by (simp add: far_closed_no_opens)
  qed
qed

lemma handle_others_far_closed: "far_closed (fst (handle_others e r))"
proof (cases "urlparse (path r) ''http''")
  case (Inl x)
  then show ?thesis by (simp add: handle_others_def)
next
  case (Inr u)
  obtain scm netloc p params query fragment
    where u: "u = (scm, netloc, p, params, query, fragment)" by (cases u)
  show ?thesis
  proof (cases "scm \<noteq> ''http'' \<or> netloc = []")
    case True
    with Inr u show ?thesis by (auto simp: handle_others_def)
  next
    case ok: False
    show ?thesis
    proof (cases "normalize_connection (headers r)")
      case (Inl x)
      with Inr u ok show ?thesis by (simp add: handle_others_def)
    next
      case hs: (Inr hs)
      obtain tr res where c: "connect_to e netloc = (tr, res)" by (cases "connect_to e netloc")
      from connect_to_cases [OF c] show ?thesis
      proof
        assume "\<exists>d. tr = [Connect d True] \<and> res = Inr True"
        then obtain d where d: "tr = [Connect d True]" "res = Inr True" by blast
        have "far_closed (fst (try_finally_far [Connect d True]
                (send_request e (r\<lparr>headers := hs\<rparr>) scm netloc p params query)
                (\<lambda>_. do_read_write e)))"
          by (rule try_finally_far_closed) (simp_all add: do_read_write_trace send_request_trace)
        with Inr u ok hs c d show ?thesis by (simp add: handle_others_def)
      next
        assume a: "list_all (\<lambda>ev. \<not> opens ev) tr \<and> res \<noteq> Inr True"
        then have "fst (handle_others e r) = tr"
          using Inr u ok hs c by (auto simp: handle_others_def split: sum.splits bool.splits)
        with a show ?thesis by (simp add: far_closed_no_opens)
      qed
    qed
  qed
qed

lemma connect_to_target_proxy_cases:
  assumes "connect_to_target_proxy e m = (tr, res)"
  shows "(\<exists>d. tr = [Connect d True] \<and> res = Inr True)
         \<or> (list_all (\<lambda>ev. \<not> opens ev) tr \<and> res \<noteq> Inr True)"
  using assms unfolding connect_to_target_proxy_def unix_client_socket_def
  by (auto simp: Let_def split: outcome.splits if_splits)

lemma relay_all_far_closed: "far_closed (fst (relay_all e m r))"
proof (cases "urlparse (path r) []")
  case (Inl x)
  then show ?thesis by (simp add: relay_all_def)
next
  case (Inr u)
  obtain scm netloc p params query fragment
    where u: "u = (scm, netloc, p, params, query, fragment)" by (cases u)
  obtain tr res where c: "connect_to_target_proxy e m = (tr, res)"
    by (cases "connect_to_target_proxy e m")
  from connect_to_target_proxy_cases [OF c] show ?thesis
  proof
    assume "\<exists>d. tr = [Connect d True] \<and> res = Inr True"
    then obtain d where d: "tr = [Connect d True]" "res = Inr True" by blast
    have "far_closed (fst (try_finally_far [Connect d True]
            (send_request e r scm netloc p params query) (\<lambda>_. do_read_write e)))"
      by (rule try_finally_far_closed) (simp_all add: do_read_write_trace send_request_trace)
    with Inr u c d show ?thesis by (simp add: relay_all_def)
  next
    assume a: "list_all (\<lambda>ev. \<not> opens ev) tr \<and> res \<noteq> Inr True"
    then have "fst (relay_all e m r) = tr"
      using Inr u c by (auto simp: relay_all_def split: sum.splits bool.splits)
    with a show ?thesis by (simp add: far_closed_no_opens)
  qed
qed

lemma handler_init_closed:
  assumes "\<And>r. far_closed (fst (dispatch r))"
  shows "near_closed (fst (handler_init dispatch s)) \<and> far_closed (fst (handler_init dispatch s))"
proof (cases "fst (parse_request s)")
  case (Inl x)
  then show ?thesis by (simp add: handler_init_def near_closed_def)
next
  case (Inr opt)
  show ?thesis
  proof (cases opt)
    case None
    with Inr show ?thesis by (simp add: handler_init_def near_closed_def)
  next
    case (Some r)
    obtain tr res where d: "dispatch r = (tr, res)" by (cases "dispatch r")
    with assms [of r] have "far_closed (tr @ [CloseNear])" by (simp add: far_closed_snoc_near)
    with Inr Some d show ?thesis by (simp add: handler_init_def near_closed_def)
  qed
qed

lemma handler_init_parsed:
  "fst (parse_request s) = Inr (Some r) \<Longrightarrow>
   fst (handler_init dispatch s) = fst (dispatch r) @ [CloseNear]"
  by (cases "dispatch r") (simp add: handler_init_def)

lemma connect_to_opened:
  assumes "connect_to e n = (tr, Inr True)"
  shows "\<exists>d. tr = [Connect d True] \<and> connect e d = Returns"
  using assms unfolding connect_to_def
  by (auto split: outcome.splits sum.splits list.splits if_splits prod.splits)

lemma connect_to_target_proxy_opened:
  assumes "connect_to_target_proxy e m = (tr, Inr True)"
  shows "\<exists>d. tr = [Connect d True] \<and> connect e d = Returns"
  using assms unfolding connect_to_target_proxy_def unix_client_socket_def
  by (auto simp: Let_def split: outcome.splits if_splits)

lemma send_request_working:
  "list_all working (fst (send_request e r scm netloc p params query))"
  by (simp add: send_request_def split: sum.splits outcome.splits)

lemma try_finally_far_working:
  assumes "list_all working (fst a)" and "list_all working (fst (b ()))"
  shows "\<exists>mid. fst (try_finally_far tr a b) = tr @ mid @ [CloseFar] \<and> list_all working mid"
proof -
  let ?mid = "fst a @ (case snd a of Inl x \<Rightarrow> [] | Inr u \<Rightarrow> fst (b ()))"
  have "fst (try_finally_far tr a b) = tr @ ?mid @ [CloseFar]"
    by (simp add: try_finally_far_trace)
  moreover have "list_all working ?mid" using assms by (simp split: sum.splits)
  ultimately show ?thesis by blast
qed

lemma do_CONNECT_opened:
  assumes "connect_to e (path r) = (tr, Inr True)"
  shows "\<exists>mid. fst (do_CONNECT e r) = tr @ mid @ [CloseFar] \<and> list_all working mid"
proof -
  let ?a = "case encode_ascii connect_reply of
               Inl x \<Rightarrow> ([], Inl x)
             | Inr reply \<Rightarrow>
                 (case near_send e reply of
                    Returns \<Rightarrow> ([SendNear reply], Inr ())
                  | Raises x \<Rightarrow> ([SendNear reply], Inl x))"
  have "list_all working (fst ?a)" by (simp split: sum.splits outcome.splits)
  moreover have "list_all working (fst (do_read_write e))" by (simp add: do_read_write_trace)
  ultimately have "\<exists>mid. fst (try_finally_far tr ?a (\<lambda>_. do_read_write e)) = tr @ mid @ [CloseFar]
      \<and> list_all working mid"
    by (rule try_finally_far_working)
  with assms show ?thesis by (simp add: do_CONNECT_def)
qed

lemma handle_others_opened:
  assumes "urlparse (path r) ''http'' = Inr (''http'', netloc, p, params, query, fragment)"
    and "netloc \<noteq> []"
    and "normalize_connection (headers r) = Inr hs"
    and "connect_to e netloc = (tr, Inr True)"
  shows "\<exists>mid. fst (handle_others e r) = tr @ mid @ [CloseFar] \<and> list_all working mid"
proof -
  have "\<exists>mid. fst (try_finally_far tr
                 (send_request e (r\<lparr>headers := hs\<rparr>) ''http'' netloc p params query)
                 (\<lambda>_. do_read_write e)) = tr @ mid @ [CloseFar]
      \<and> list_all working mid"
    by (rule try_finally_far_working) (simp_all add: send_request_working do_read_write_trace)
  with assms show ?thesis by (simp add: handle_others_def)
qed

lemma relay_all_opened:
  assumes "urlparse (path r) [] = Inr u"
    and "connect_to_target_proxy e m = (tr, Inr True)"
  shows "\<exists>mid. fst (relay_all e m r) = tr @ mid @ [CloseFar] \<and> list_all working mid"
proof -
  obtain scm netloc p params query fragment
    where u: "u = (scm, netloc, p, params, query, fragment)" by (cases u)
  have "\<exists>mid. fst (try_finally_far tr (send_request e r scm netloc p params query)
                 (\<lambda>_. do_read_write e)) = tr @ mid @ [CloseFar]
      \<and> list_all working mid"
    by (rule try_finally_far_working) (simp_all add: send_request_working do_read_write_trace)
  with assms u show ?thesis by (simp add: relay_all_def)
qed

lemmas handler_eval =
  ConnectionHandler_def ForwardingProxyConnectionHandler_def handler_init_def
  handle_request_def handle_request_forwarding_def do_CONNECT_def handle_others_def
  relay_all_def connect_to_def connect_to_target_proxy_def unix_client_socket_def
  try_finally_far_def send_request_def request_bytes_def do_read_write_def
  normalize_connection_def connect_reply_def server_version_def VERSION_def env_ok_def
  unix_target_proxy_def scion_target_proxy_def isd_ad_def
  parse_request_def recv_head.simps decode_ascii_def encode_ascii_def is_ascii_def
  add_header_def header_line_def

lemmas url_eval =
  urlparse_def urlsplit_def urlsplit_rest_def splitnetloc_def splitparams_def
  urlunparse_def urlunsplit_def find_from_def rfind_chr_def uses_params_def uses_netloc_def
  scheme_chars_def lower_def lower_chr_def delitem_def

lemmas int_eval = py_int_def py_space_def digit_val_def

text \<open>
  Claim C9. On every path of a connection handler, in direct and in bridge mode, whatever
  the client sends and however the calls on the sockets end (the client closes early, the
  request is malformed, the method is not supported, the dial, a send or the relay fails,
  or the relay completes), the last thing the handler does is to close the client's
  connection, and a destination connection that was opened is closed before that.
  Whenever the dial of the handler succeeds (for a CONNECT request and for a forwarded
  request in direct mode, for every accepted request in bridge mode), the handler's
  events are exactly: the connect that the destination accepted, then only sends and the
  relay, whether they return or raise, then the cleanup of the destination's socket, then
  the cleanup of the client's socket.
\<close>

theorem handlers_close_connections:
  "near_closed (fst (ConnectionHandler e s)) \<and> far_closed (fst (ConnectionHandler e s))
   \<and> near_closed (fst (ForwardingProxyConnectionHandler e scion_mode s))
   \<and> far_closed (fst (ForwardingProxyConnectionHandler e scion_mode s))
   \<and> (fst (parse_request s) = Inr (Some r) \<and> method r = ''CONNECT''
        \<and> connect_to e (path r) = (tr, Inr True) \<longrightarrow>
      (\<exists>d mid. tr = [Connect d True] \<and> connect e d = Returns
         \<and> fst (ConnectionHandler e s) = Connect d True # mid @ [CloseFar, CloseNear]
         \<and> list_all working mid))
   \<and> (fst (parse_request s) = Inr (Some r)
        \<and> method r \<in> set [''GET'', ''HEAD'', ''POST'', ''PUT'', ''DELETE'']
        \<and> urlparse (path r) ''http'' = Inr (''http'', netloc, p, params, query, fragment)
        \<and> netloc \<noteq> [] \<and> normalize_connection (headers r) = Inr hs
        \<and> connect_to e netloc = (tr, Inr True) \<longrightarrow>
      (\<exists>d mid. tr = [Connect d True] \<and> connect e d = Returns
         \<and> fst (ConnectionHandler e s) = Connect d True # mid @ [CloseFar, CloseNear]
         \<and> list_all working mid))
   \<and> (fst (parse_request s) = Inr (Some r)
        \<and> method r \<in> set [''CONNECT'', ''GET'', ''HEAD'', ''POST'', ''PUT'', ''DELETE'']
        \<and> urlparse (path r) [] = Inr u
        \<and> connect_to_target_proxy e scion_mode = (tr, Inr True) \<longrightarrow>
      (\<exists>d mid. tr = [Connect d True] \<and> connect e d = Returns
         \<and> fst (ForwardingProxyConnectionHandler e scion_mode s) =
             Connect d True # mid @ [CloseFar, CloseNear]
         \<and> list_all working mid))"
proof -
  have "far_closed (fst (handle_request e r))" for r
    by (simp add: handle_request_def do_CONNECT_far_closed handle_others_far_closed)
  then have a: "near_closed (fst (ConnectionHandler e s)) \<and> far_closed (fst (ConnectionHandler e s))"
    unfolding ConnectionHandler_def by (rule handler_init_closed)
  have "far_closed (fst (handle_request_forwarding e scion_mode r))" for r
    by (simp add: handle_request_forwarding_def relay_all_far_closed)
  then have b: "near_closed (fst (ForwardingProxyConnectionHandler e scion_mode s))
      \<and> far_closed (fst (ForwardingProxyConnectionHandler e scion_mode s))"
    unfolding ForwardingProxyConnectionHandler_def by (rule handler_init_closed)
  have c: "\<exists>d mid. tr = [Connect d True] \<and> connect e d = Returns
         \<and> fst (ConnectionHandler e s) = Connect d True # mid @ [CloseFar, CloseNear]
         \<and> list_all working mid"
    if q: "fst (parse_request s) = Inr (Some r)" and m: "method r = ''CONNECT''"
      and c: "connect_to e (path r) = (tr, Inr True)"
  proof -
    from connect_to_opened [OF c] obtain d where d: "tr = [Connect d True]" "connect e d = Returns"
      by blast
    from do_CONNECT_opened [OF c] obtain mid where
      mid: "fst (do_CONNECT e r) = tr @ mid @ [CloseFar]" "list_all working mid" by blast
    from m have "handle_request e r = do_CONNECT e r" by (simp add: handle_request_def)
    with handler_init_parsed [OF q, of "handle_request e"] mid(1) d(1)
    have "fst (ConnectionHandler e s) = Connect d True # mid @ [CloseFar, CloseNear]"
      by (simp add: ConnectionHandler_def)
    with d mid(2) show ?thesis by blast
  qed
  have d: "\<exists>d mid. tr = [Connect d True] \<and> connect e d = Returns
         \<and> fst (ConnectionHandler e s) = Connect d True # mid @ [CloseFar, CloseNear]
         \<and> list_all working mid"
    if q: "fst (parse_request s) = Inr (Some r)"
      and m: "method r \<in> set [''GET'', ''HEAD'', ''POST'', ''PUT'', ''DELETE'']"
      and u: "urlparse (path r) ''http'' = Inr (''http'', netloc, p, params, query, fragment)"
      and n: "netloc \<noteq> []" and h: "normalize_connection (headers r) = Inr hs"
      and c: "connect_to e netloc = (tr, Inr True)"
  proof -
    from connect_to_opened [OF c] obtain d where d: "tr = [Connect d True]" "connect e d = Returns"
      by blast
    from handle_others_opened [OF u n h c] obtain mid where
      mid: "fst (handle_others e r) = tr @ mid @ [CloseFar]" "list_all working mid" by blast
    from m have "method r \<noteq> ''CONNECT''" by auto
    with m have "handle_request e r = handle_others e r" by (simp add: handle_request_def)
    with handler_init_parsed [OF q, of "handle_request e"] mid(1) d(1)
    have "fst (ConnectionHandler e s) = Connect d True # mid @ [CloseFar, CloseNear]"
      by (simp add: ConnectionHandler_def)
    with d mid(2) show ?thesis by blast
  qed
  have f: "\<exists>d mid. tr = [Connect d True] \<and> connect e d = Returns
         \<and> fst (ForwardingProxyConnectionHandler e scion_mode s) =
             Connect d True # mid @ [CloseFar, CloseNear]
         \<and> list_all working mid"
    if q: "fst (parse_request s) = Inr (Some r)"
      and m: "method r \<in> set [''CONNECT'', ''GET'', ''HEAD'', ''POST'', ''PUT'', ''DELETE'']"
      and u: "urlparse (path r) [] = Inr u"
      and c: "connect_to_target_proxy e scion_mode = (tr, Inr True)"
  proof -
    from connect_to_target_proxy_opened [OF c] obtain d
      where d: "tr = [Connect d True]" "connect e d = Returns" by blast
    from relay_all_opened [OF u c] obtain mid where
      mid: "fst (relay_all e scion_mode r) = tr @ mid @ [CloseFar]" "list_all working mid"
      by blast
    from m have "handle_request_forwarding e scion_mode r = relay_all e scion_mode r"
      by (simp add: handle_request_forwarding_def)
    with handler_init_parsed [OF q, of "handle_request_forwarding e scion_mode"] mid(1) d(1)
    have "fst (ForwardingProxyConnectionHandler e scion_mode s) =
        Connect d True # mid @ [CloseFar, CloseNear]"
      by (simp add: ForwardingProxyConnectionHandler_def)
    with d mid(2) show ?thesis by blast
  qed
  from a b c d f show ?thesis by blast
qed

theorem handlers_close_connections_witness:
  "fst (parse_request (''CONNECT example.com:443 HTTP/1.1'' @ CRLF @ CRLF)) =
     Inr (Some \<lparr>method = ''CONNECT'', path = ''example.com:443'', protocol = ''HTTP/1.1'',
                 headers = []\<rparr>)
   \<and> connect_to env_ok ''example.com:443'' = ([Connect (Tcp ''example.com'' 443) True], Inr True)
   \<and> fst (ConnectionHandler env_ok (''CONNECT example.com:443 HTTP/1.1'' @ CRLF @ CRLF)) =
       [Connect (Tcp ''example.com'' 443) True, SendNear connect_reply, ReadWrite,
        CloseFar, CloseNear]
   \<and> (\<exists>d mid. [Connect (Tcp ''example.com'' 443) True] = [Connect d True]
         \<and> connect env_ok d = Returns
         \<and> fst (ConnectionHandler env_ok (''CONNECT example.com:443 HTTP/1.1'' @ CRLF @ CRLF)) =
             Connect d True # mid @ [CloseFar, CloseNear]
         \<and> list_all working mid)
   \<and> connect_to (env_ok\<lparr>near_send := \<lambda>b. Raises OSError\<rparr>) ''example.com:443'' =
       ([Connect (Tcp ''example.com'' 443) True], Inr True)
   \<and> fst (ConnectionHandler (env_ok\<lparr>near_send := \<lambda>b. Raises OSError\<rparr>)
            (''CONNECT example.com:443 HTTP/1.1'' @ CRLF @ CRLF)) =
       [Connect (Tcp ''example.com'' 443) True, SendNear connect_reply, CloseFar, CloseNear]
   \<and> (\<exists>d mid. [Connect (Tcp ''example.com'' 443) True] = [Connect d True]
         \<and> connect (env_ok\<lparr>near_send := \<lambda>b. Raises OSError\<rparr>) d = Returns
         \<and> fst (ConnectionHandler (env_ok\<lparr>near_send := \<lambda>b. Raises OSError\<rparr>)
                  (''CONNECT example.com:443 HTTP/1.1'' @ CRLF @ CRLF)) =
             Connect d True # mid @ [CloseFar, CloseNear]
         \<and> list_all working mid)
   \<and> fst (parse_request (''GET http://example.com/ HTTP/1.1'' @ CRLF @ CRLF)) =
       Inr (Some \<lparr>method = ''GET'', path = ''http://example.com/'', protocol = ''HTTP/1.1'',
                   headers = []\<rparr>)
   \<and> ''GET'' \<in> set [''GET'', ''HEAD'', ''POST'', ''PUT'', ''DELETE'']
   \<and> urlparse ''http://example.com/'' ''http'' = Inr (''http'', ''example.com'', ''/'', [], [], [])
   \<and> normalize_connection [] = Inr []
   \<and> connect_to (env_ok\<lparr>far_send := \<lambda>b. Raises OSError\<rparr>) ''example.com'' =
       ([Connect (Tcp ''example.com'' 80) True], Inr True)
   \<and> fst (ConnectionHandler (env_ok\<lparr>far_send := \<lambda>b. Raises OSError\<rparr>)
            (''GET http://example.com/ HTTP/1.1'' @ CRLF @ CRLF)) =
       [Connect (Tcp ''example.com'' 80) True,
        SendFar (''GET http://example.com/ HTTP/1.0'' @ CRLF @ CRLF), CloseFar, CloseNear]
   \<and> (\<exists>d mid. [Connect (Tcp ''example.com'' 80) True] = [Connect d True]
         \<and> connect (env_ok\<lparr>far_send := \<lambda>b. Raises OSError\<rparr>) d = Returns
         \<and> fst (ConnectionHandler (env_ok\<lparr>far_send := \<lambda>b. Raises OSError\<rparr>)
                  (''GET http://example.com/ HTTP/1.1'' @ CRLF @ CRLF)) =
             Connect d True # mid @ [CloseFar, CloseNear]
         \<and> list_all working mid)
   \<and> ''CONNECT'' \<in> set [''CONNECT'', ''GET'', ''HEAD'', ''POST'', ''PUT'', ''DELETE'']
   \<and> urlparse ''example.com:443'' [] = Inr ([], [], ''example.com:443'', [], [], [])
   \<and> connect_to_target_proxy env_ok False = ([Connect (Tcp ''127.0.0.1'' 9090) True], Inr True)
   \<and> fst (ForwardingProxyConnectionHandler env_ok False
            (''CONNECT example.com:443 HTTP/1.1'' @ CRLF @ CRLF)) =
       [Connect (Tcp ''127.0.0.1'' 9090) True,
        SendFar (''CONNECT example.com:443 HTTP/1.0'' @ CRLF @ CRLF), ReadWrite,
        CloseFar, CloseNear]
   \<and> (\<exists>d mid. [Connect (Tcp ''127.0.0.1'' 9090) True] = [Connect d True]
         \<and> connect env_ok d = Returns
         \<and> fst (ForwardingProxyConnectionHandler env_ok False
                  (''CONNECT example.com:443 HTTP/1.1'' @ CRLF @ CRLF)) =
             Connect d True # mid @ [CloseFar, CloseNear]
         \<and> list_all working mid)
   \<and> fst (ConnectionHandler (env_ok\<lparr>connect := \<lambda>d. Raises OSError\<rparr>)
            (''CONNECT example.com:443 HTTP/1.1'' @ CRLF @ CRLF)) =
       [Connect (Tcp ''example.com'' 443) False, CloseNear]
   \<and> near_closed (fst (ConnectionHandler (env_ok\<lparr>connect := \<lambda>d. Raises OSError\<rparr>)
            (''CONNECT example.com:443 HTTP/1.1'' @ CRLF @ CRLF)))
   \<and> far_closed (fst (ConnectionHandler (env_ok\<lparr>connect := \<lambda>d. Raises OSError\<rparr>)
            (''CONNECT example.com:443 HTTP/1.1'' @ CRLF @ CRLF)))"
proof -
  let ?S = "''CONNECT example.com:443 HTTP/1.1'' @ CRLF @ CRLF"
  let ?R = "\<lparr>method = ''CONNECT'', path = ''example.com:443'', protocol = ''HTTP/1.1'',
             headers = []\<rparr>"
  let ?G = "''GET http://example.com/ HTTP/1.1'' @ CRLF @ CRLF"
  let ?Q = "\<lparr>method = ''GET'', path = ''http://example.com/'', protocol = ''HTTP/1.1'',
             headers = []\<rparr>"
  let ?en = "env_ok\<lparr>near_send := \<lambda>b. Raises OSError\<rparr>"
  let ?ef = "env_ok\<lparr>far_send := \<lambda>b. Raises OSError\<rparr>"
  let ?ec = "env_ok\<lparr>connect := \<lambda>d. Raises OSError\<rparr>"
  let ?T = "[Connect (Tcp ''example.com'' 443) True]"
  have q: "fst (parse_request ?S) = Inr (Some ?R)"
    by (simp add: parse_request_def recv_head.simps decode_ascii_def is_ascii_def)
  have g: "fst (parse_request ?G) = Inr (Some ?Q)"
    by (simp add: parse_request_def recv_head.simps decode_ascii_def is_ascii_def)
  have c1: "connect_to env_ok ''example.com:443'' = (?T, Inr True)"
    by (simp add: connect_to_def env_ok_def int_eval)
  have c2: "connect_to ?en ''example.com:443'' = (?T, Inr True)"
    by (simp add: connect_to_def env_ok_def int_eval)
  have c3: "connect_to ?ef ''example.com'' = ([Connect (Tcp ''example.com'' 80) True], Inr True)"
    by (simp add: connect_to_def env_ok_def)
  have c4: "connect_to_target_proxy env_ok False =
      ([Connect (Tcp ''127.0.0.1'' 9090) True], Inr True)"
    by (simp add: connect_to_target_proxy_def unix_client_socket_def env_ok_def
        unix_target_proxy_def)
  have m1: "method ?R = ''CONNECT''" by simp
  have m2: "''GET'' \<in> set [''GET'', ''HEAD'', ''POST'', ''PUT'', ''DELETE'']" by simp
  have m3: "''CONNECT'' \<in> set [''CONNECT'', ''GET'', ''HEAD'', ''POST'', ''PUT'', ''DELETE'']"
    by simp
  have u2: "urlparse ''http://example.com/'' ''http'' =
      Inr (''http'', ''example.com'', ''/'', [], [], [])"
    by (simp add: url_eval)
  have u3: "urlparse ''example.com:443'' [] = Inr ([], [], ''example.com:443'', [], [], [])"
    by (simp add: url_eval)
  have n2: "normalize_connection [] = Inr []" by (simp add: normalize_connection_def)
  have t1: "fst (ConnectionHandler env_ok ?S) =
      [Connect (Tcp ''example.com'' 443) True, SendNear connect_reply, ReadWrite,
       CloseFar, CloseNear]"
    by (simp add: handler_eval int_eval)
  have t2: "fst (ConnectionHandler ?en ?S) =
      [Connect (Tcp ''example.com'' 443) True, SendNear connect_reply, CloseFar, CloseNear]"
    by (simp add: handler_eval int_eval)
  have t3: "fst (ConnectionHandler ?ef ?G) =
      [Connect (Tcp ''example.com'' 80) True,
       SendFar (''GET http://example.com/ HTTP/1.0'' @ CRLF @ CRLF), CloseFar, CloseNear]"
    by (simp add: handler_eval url_eval)
  have t4: "fst (ForwardingProxyConnectionHandler env_ok False ?S) =
      [Connect (Tcp ''127.0.0.1'' 9090) True,
       SendFar (''CONNECT example.com:443 HTTP/1.0'' @ CRLF @ CRLF), ReadWrite,
       CloseFar, CloseNear]"
    by (simp add: handler_eval url_eval)
  have t5: "fst (ConnectionHandler ?ec ?S) = [Connect (Tcp ''example.com'' 443) False, CloseNear]"
    by (simp add: handler_eval int_eval)
  from handlers_close_connections [where e = env_ok and s = ?S and r = ?R and tr = ?T] q c1
  have x1: "\<exists>d mid. ?T = [Connect d True] \<and> connect env_ok d = Returns
      \<and> fst (ConnectionHandler env_ok ?S) = Connect d True # mid @ [CloseFar, CloseNear]
      \<and> list_all working mid"
    by simp
  from handlers_close_connections [where e = ?en and s = ?S and r = ?R and tr = ?T] q c2
  have x2: "\<exists>d mid. ?T = [Connect d True] \<and> connect ?en d = Returns
      \<and> fst (ConnectionHandler ?en ?S) = Connect d True # mid @ [CloseFar, CloseNear]
      \<and> list_all working mid"
    by simp
  from handlers_close_connections [where e = ?ef and s = ?G and r = ?Q
      and tr = "[Connect (Tcp ''example.com'' 80) True]" and netloc = "''example.com''"
      and p = "''/''" and params = "[]" and query = "[]" and fragment = "[]" and hs = "[]"]
    g u2 n2 c3
  have x3: "\<exists>d mid. [Connect (Tcp ''example.com'' 80) True] = [Connect d True]
      \<and> connect ?ef d = Returns
      \<and> fst (ConnectionHandler ?ef ?G) = Connect d True # mid @ [CloseFar, CloseNear]
      \<and> list_all working mid"
    by simp
  from handlers_close_connections [where e = env_ok and s = ?S and r = ?R
      and scion_mode = False and tr = "[Connect (Tcp ''127.0.0.1'' 9090) True]"
      and u = "([], [], ''example.com:443'', [], [], [])"] q u3 c4
  have x4: "\<exists>d mid. [Connect (Tcp ''127.0.0.1'' 9090) True] = [Connect d True]
      \<and> connect env_ok d = Returns
      \<and> fst (ForwardingProxyConnectionHandler env_ok False ?S) =
          Connect d True # mid @ [CloseFar, CloseNear]
      \<and> list_all working mid"
    by simp
  from handlers_close_connections [where e = ?ec and s = ?S]
  have x5: "near_closed (fst (ConnectionHandler ?ec ?S))" "far_closed (fst (ConnectionHandler ?ec ?S))"
    by blast+
  from q c1 t1 x1 c2 t2 x2 g m2 u2 n2 c3 t3 x3 m3 u3 c4 t4 x4 t5 x5 show ?thesis
    by (intro conjI)
qed

lemma do_CONNECT_connected:
  assumes "connect_to e (path r) = (tr, Inr True)"
  shows "fst (do_CONNECT e r) =
           tr @ [SendNear connect_reply]
              @ (if near_send e connect_reply = Returns then [ReadWrite] else []) @ [CloseFar]"
  using assms
  by (simp add: do_CONNECT_def encode_connect_reply try_finally_far_trace do_read_write_trace
      split: outcome.splits)

text \<open>
  Claim C5, as the code has it. For every CONNECT request whose dial succeeds, the handler
  first hands to the client's socket exactly the fixed reply
  \<open>HTTP/1.1 200 Connection established\<close>, the \<open>Proxy-agent\<close> header with the server version
  and a blank line, whatever protocol version the client's request line carried; the
  relay starts only after that call has returned, and the destination is closed last.
\<close>

theorem CONNECT_reply_fixed:
  assumes "method r = ''CONNECT''" and "connect_to e (path r) = (tr, Inr True)"
  shows "fst (handle_request e r) =
           tr @ [SendNear (''HTTP/1.1 200 Connection established'' @ CRLF
                           @ ''Proxy-agent: SCION HTTP Proxy/0.1.0'' @ CRLF @ CRLF)]
              @ (if near_send e connect_reply = Returns then [ReadWrite] else []) @ [CloseFar]"
proof -
  have "connect_reply = ''HTTP/1.1 200 Connection established'' @ CRLF
                           @ ''Proxy-agent: SCION HTTP Proxy/0.1.0'' @ CRLF @ CRLF"
    by (simp add: connect_reply_def server_version_def VERSION_def)
  with do_CONNECT_connected [OF assms(2)] assms(1) show ?thesis
    by (simp add: handle_request_def)
qed

theorem CONNECT_reply_fixed_witness:
  "method \<lparr>method = ''CONNECT'', path = ''example.com:443'', protocol = ''HTTP/1.0'',
            headers = []\<rparr> = ''CONNECT''
   \<and> connect_to env_ok ''example.com:443'' = ([Connect (Tcp ''example.com'' 443) True], Inr True)
   \<and> fst (handle_request env_ok \<lparr>method = ''CONNECT'', path = ''example.com:443'',
            protocol = ''HTTP/1.0'', headers = []\<rparr>) =
       [Connect (Tcp ''example.com'' 443) True,
        SendNear (''HTTP/1.1 200 Connection established'' @ CRLF
                  @ ''Proxy-agent: SCION HTTP Proxy/0.1.0'' @ CRLF @ CRLF),
        ReadWrite, CloseFar]"
proof -
  let ?r = "\<lparr>method = ''CONNECT'', path = ''example.com:443'', protocol = ''HTTP/1.0'',
             headers = []\<rparr>"
  have c: "connect_to env_ok (path ?r) = ([Connect (Tcp ''example.com'' 443) True], Inr True)"
    by (simp add: connect_to_def env_ok_def int_eval)
  have m: "method ?r = ''CONNECT''" by simp
  from CONNECT_reply_fixed [OF m c] c show ?thesis by (simp add: env_ok_def)
qed

theorem CONNECT_reply_counterexample:
  "fst (ConnectionHandler env_ok (''CONNECT example.com:443 HTTP/1.0'' @ CRLF @ CRLF)) =
     [Connect (Tcp ''example.com'' 443) True,
      SendNear (''HTTP/1.1 200 Connection established'' @ CRLF
                @ ''Proxy-agent: SCION HTTP Proxy/0.1.0'' @ CRLF @ CRLF),
      ReadWrite, CloseFar, CloseNear]
   \<and> SendNear (''HTTP/1.0 200 Connection established'' @ CRLF
                @ ''Proxy-agent: SCION HTTP Proxy/0.1.0'' @ CRLF @ CRLF)
       \<notin> set (fst (ConnectionHandler env_ok (''CONNECT example.com:443 HTTP/1.0'' @ CRLF @ CRLF)))"
  by (simp add: handler_eval int_eval)


lemma connect_to_no_colon:
  assumes "CHR '':'' \<notin> set netloc" and "new_socket e = Returns"
  shows "connect_to e netloc =
           (case connect e (Tcp netloc 80) of
              Returns \<Rightarrow> ([Connect (Tcp netloc 80) True], Inr True)
            | Raises x \<Rightarrow>
                if x = OSError then ([Connect (Tcp netloc 80) False], Inr False)
                else ([Connect (Tcp netloc 80) False], Inl x))"
  using assms by (simp add: connect_to_def)

lemma connect_to_many_colons:
  assumes "2 < length (split_chr (CHR '':'') netloc)" and "new_socket e = Returns"
  shows "connect_to e netloc = ([], Inl ValueError)"
proof -
  from assms(1) have "CHR '':'' \<in> set netloc"
    using split_chr_none [of "CHR '':''" netloc] by (cases "CHR '':'' \<in> set netloc") auto
  moreover from assms(1) obtain a b c ds where "split_chr (CHR '':'') netloc = a # b # c # ds"
    by (cases "split_chr (CHR '':'') netloc" rule: list.exhaust; simp)
       (metis One_nat_def Suc_1 length_Cons less_Suc_eq_0_disj list.exhaust list.size(3) not_less_eq)
  ultimately show ?thesis using assms(2) by (simp add: connect_to_def)
qed

text \<open>
  Claim C4, as the code has it. In direct mode a CONNECT request whose target contains no
  colon is not rejected: the handler applies the default port 80 and calls \<open>connect\<close> with
  the target as host and port 80 (and goes on to reply and relay when that call returns).
  A CONNECT target with two or more colons is rejected: unpacking the split raises
  \<open>ValueError\<close> and no connection is attempted.
\<close>

theorem CONNECT_without_port:
  assumes "method r = ''CONNECT''" and "new_socket e = Returns"
  shows "(CHR '':'' \<notin> set (path r) \<longrightarrow>
            fst (handle_request e r) =
              (if connect e (Tcp (path r) 80) = Returns
               then [Connect (Tcp (path r) 80) True, SendNear connect_reply]
                      @ (if near_send e connect_reply = Returns then [ReadWrite] else [])
                      @ [CloseFar]
               else [Connect (Tcp (path r) 80) False]))
         \<and> (2 < length (split_chr (CHR '':'') (path r)) \<longrightarrow>
              handle_request e r = ([], Inl ValueError))"
proof (intro conjI impI)
  assume nc: "CHR '':'' \<notin> set (path r)"
  show "fst (handle_request e r) =
              (if connect e (Tcp (path r) 80) = Returns
               then [Connect (Tcp (path r) 80) True, SendNear connect_reply]
                      @ (if near_send e connect_reply = Returns then [ReadWrite] else [])
                      @ [CloseFar]
               else [Connect (Tcp (path r) 80) False])"
  proof (cases "connect e (Tcp (path r) 80)")
    case Returns
    with connect_to_no_colon [OF nc assms(2)]
    have "connect_to e (path r) = ([Connect (Tcp (path r) 80) True], Inr True)" by simp
    from do_CONNECT_connected [OF this] Returns assms(1) show ?thesis
      by (simp add: handle_request_def)
  next
    case (Raises x)
    with connect_to_no_colon [OF nc assms(2)]
    have "fst (connect_to e (path r)) = [Connect (Tcp (path r) 80) False]"
      and "snd (connect_to e (path r)) \<noteq> Inr True" by (simp_all split: if_splits)
    then have "fst (do_CONNECT e r) = [Connect (Tcp (path r) 80) False]"
      by (cases "connect_to e (path r)") (auto simp: do_CONNECT_def split: sum.splits bool.splits)
    with Raises assms(1) show ?thesis by (simp add: handle_request_def)
  qed
next
  assume "2 < length (split_chr (CHR '':'') (path r))"
  from connect_to_many_colons [OF this assms(2)] assms(1)
  show "handle_request e r = ([], Inl ValueError)"
    by (simp add: handle_request_def do_CONNECT_def)
qed

theorem CONNECT_without_port_witness:
  "new_socket env_ok = Returns
   \<and> CHR '':'' \<notin> set ''example.com''
   \<and> fst (handle_request env_ok \<lparr>method = ''CONNECT'', path = ''example.com'',
            protocol = ''HTTP/1.1'', headers = []\<rparr>) =
       [Connect (Tcp ''example.com'' 80) True, SendNear connect_reply, ReadWrite, CloseFar]
   \<and> 2 < length (split_chr (CHR '':'') ''a:b:c'')
   \<and> handle_request env_ok \<lparr>method = ''CONNECT'', path = ''a:b:c'',
            protocol = ''HTTP/1.1'', headers = []\<rparr> = ([], Inl ValueError)"
proof -
  let ?r = "\<lparr>method = ''CONNECT'', path = ''example.com'', protocol = ''HTTP/1.1'',
             headers = []\<rparr>"
  let ?q = "\<lparr>method = ''CONNECT'', path = ''a:b:c'', protocol = ''HTTP/1.1'',
             headers = []\<rparr>"
  have n: "new_socket env_ok = Returns" by (simp add: env_ok_def)
  have a: "CHR '':'' \<notin> set ''example.com''" by simp
  have b: "2 < length (split_chr (CHR '':'') ''a:b:c'')" by simp
  from CONNECT_without_port [of ?r env_ok] n a
  have c: "fst (handle_request env_ok ?r) =
       [Connect (Tcp ''example.com'' 80) True, SendNear connect_reply, ReadWrite, CloseFar]"
    by (simp add: env_ok_def)
  from CONNECT_without_port [of ?q env_ok] n b
  have d: "handle_request env_ok ?q = ([], Inl ValueError)" by simp
  from n a b c d show ?thesis by blast
qed

theorem CONNECT_without_port_counterexample:
  "CHR '':'' \<notin> set ''example.com''
   \<and> ConnectionHandler env_ok (''CONNECT example.com HTTP/1.1'' @ CRLF @ CRLF) =
       ([Connect (Tcp ''example.com'' 80) True,
         SendNear (''HTTP/1.1 200 Connection established'' @ CRLF
                   @ ''Proxy-agent: SCION HTTP Proxy/0.1.0'' @ CRLF @ CRLF),
         ReadWrite, CloseFar, CloseNear], Inr ())"
  by (simp add: handler_eval)

section \<open>Properties of the URL functions\<close>
















section \<open>The Connection header\<close>









section \<open>The forwarded request\<close>
































end
